theory Spec2Isabelle
  imports Main
begin

section \<open>Machine integers\<close>

text \<open>
  Heights and epochs are Go \<^verbatim>\<open>int64\<close> values. They are modelled as \<^typ>\<open>int\<close>, and an
  addition that can leave the 64-bit range is wrapped explicitly with \<open>wrap64\<close>.
\<close>

definition int64_min :: int where
  "int64_min = - (2 ^ 63)"

definition int64_max :: int where
  "int64_max = 2 ^ 63 - 1"

definition is_int64 :: "int \<Rightarrow> bool" where
  "is_int64 x = (int64_min \<le> x \<and> x \<le> int64_max)"

definition wrap64 :: "int \<Rightarrow> int" where
  "wrap64 x = (x + 2 ^ 63) mod 2 ^ 64 - 2 ^ 63"

section \<open>Gap auditor: candidate heights (chain/gap/find.go)\<close>

text \<open>
  \<^verbatim>\<open>visor.ProcessingReport\<close> is declared in another package; the record carries the
  fields that the gap auditor reads.
\<close>

record ProcessingReport =
  pr_Height :: int
  pr_Task :: string
  pr_Status :: string

text \<open>
  The counting loop \<^verbatim>\<open>for gap := lo; gap < hi; gap++ { maybeGap = append(maybeGap, gap) }\<close>.
  Inside the loop \<open>gap < hi \<le> int64_max\<close>, so the increment never wraps.
\<close>

function appendRange :: "int \<Rightarrow> int \<Rightarrow> int list \<Rightarrow> int list" where
  "appendRange gap hi maybeGap =
     (if gap < hi then appendRange (gap + 1) hi (maybeGap @ [gap]) else maybeGap)"
  by pat_completeness auto
termination
  by (relation "measure (\<lambda>(gap, hi, maybeGap). nat (hi - gap))") auto

declare appendRange.simps [simp del]

text \<open>
  The outer loop of \<^verbatim>\<open>findEpochGaps\<close> over \<^verbatim>\<open>prs[1:]\<close>, with \<^verbatim>\<open>prev\<close> and the
  accumulated \<^verbatim>\<open>maybeGap\<close> as loop state. \<^verbatim>\<open>cur.Height + 1\<close> is an int64 addition.
\<close>

fun scanReports :: "ProcessingReport \<Rightarrow> ProcessingReport list \<Rightarrow> int list \<Rightarrow> int list" where
  "scanReports prev [] maybeGap = maybeGap"
| "scanReports prev (cur # rest) maybeGap =
     scanReports cur rest (appendRange (wrap64 (pr_Height cur + 1)) (pr_Height prev) maybeGap)"

definition findEpochGaps :: "ProcessingReport list \<Rightarrow> int list" where
  "findEpochGaps prs =
     (case prs of
        [] \<Rightarrow> []
      | prev # rest \<Rightarrow>
          sort (appendRange 0 (pr_Height (last prs)) (scanReports prev rest [])))"


section \<open>Errors and collaborators\<close>

text \<open>
  Actor code identifiers: the builtin codes that the diff compares with, and any other CID.
\<close>

datatype ActorCode =
    builtin0_StorageMinerActorCodeID
  | builtin2_StorageMinerActorCodeID
  | builtin3_StorageMinerActorCodeID
  | builtin4_StorageMinerActorCodeID
  | builtin0_StorageMarketActorCodeID
  | builtin2_StorageMarketActorCodeID
  | OtherCodeID string

text \<open>
  A Go \<^verbatim>\<open>error\<close> is one returned by an external collaborator (the node API, the database
  driver), or a wrapping made by \<^verbatim>\<open>xerrors.Errorf(format, args..., err)\<close>, whose integer
  arguments are kept beside the format string, or the error that \<^verbatim>\<open>SectorsAmtBitwidth\<close>
  makes for an actor code it does not know.
\<close>

datatype error =
    External string
  | Errorf string "int list" error
  | UnknownActorCode ActorCode

text \<open>
  A tipset as the gap auditor sees it: \<^verbatim>\<open>ts.Height()\<close> and \<^verbatim>\<open>ts.Key().String()\<close>.
  \<^verbatim>\<open>node.ChainGetTipSetByHeight(ctx, h, types.EmptyTSK)\<close> is a function from the requested
  height to an error or a tipset.
\<close>

record TipSet =
  ts_Height :: int
  ts_Key :: string

type_synonym lens_API = "int \<Rightarrow> error + TipSet"

text \<open>The rows of \<^verbatim>\<open>visor_gap_reports\<close>; the primary key is (height, tip_set, task).\<close>

record GapReport =
  gr_Height :: int
  gr_TipSet :: string
  gr_Task :: string
  gr_Status :: string
  gr_Reporter :: string
  gr_ReportedAt :: int

text \<open>
  The store as the gap auditor uses it: the two tables, and whether a SELECT or an UPDATE
  issued through the ORM fails.
\<close>

record Database =
  processing_reports :: "ProcessingReport list"
  gap_reports :: "GapReport list"
  select_error :: "error option"
  update_error :: "error option"

text \<open>
  The status value \<^verbatim>\<open>visor.ProcessingStatusSkip\<close> is declared in another package and
  is a parameter of the query for skipped reports.
\<close>

text \<open>\<^verbatim>\<open>Order("height desc")\<close>; rows of equal height keep their table order.\<close>

definition orderByHeightDesc :: "ProcessingReport list \<Rightarrow> ProcessingReport list" where
  "orderByHeightDesc rows = sort_key (\<lambda>r. - pr_Height r) rows"

text \<open>\<^verbatim>\<open>DistinctOn("height")\<close>: one row for each height, the first in the given order.\<close>

fun distinctOnHeight :: "ProcessingReport list \<Rightarrow> ProcessingReport list" where
  "distinctOnHeight [] = []"
| "distinctOnHeight (r # rs) =
     r # distinctOnHeight (filter (\<lambda>x. pr_Height x \<noteq> pr_Height r) rs)"

definition selectReportHeights :: "Database \<Rightarrow> error + ProcessingReport list" where
  "selectReportHeights db =
     (case select_error db of
        Some e \<Rightarrow> Inl e
      | None \<Rightarrow> Inr (distinctOnHeight (orderByHeightDesc (processing_reports db))))"

definition selectSkippedReports :: "string \<Rightarrow> Database \<Rightarrow> error + ProcessingReport list" where
  "selectSkippedReports ProcessingStatusSkip db =
     (case select_error db of
        Some e \<Rightarrow> Inl e
      | None \<Rightarrow>
          Inr (orderByHeightDesc
                 (filter (\<lambda>r. pr_Status r = ProcessingStatusSkip) (processing_reports db))))"

subsection \<open>detectSkippedTipSets\<close>

text \<open>
  The loop over \<^verbatim>\<open>skippedReports\<close>; \<^verbatim>\<open>gapReport[idx] = ...\<close> fills the slice in order, so
  the accumulator grows at its end. A failed lookup returns the wrapped error and no list.
\<close>

fun skippedLoop ::
  "int \<Rightarrow> lens_API \<Rightarrow> ProcessingReport list \<Rightarrow> GapReport list \<Rightarrow> error + GapReport list" where
  "skippedLoop reportTime node [] gapReport = Inr gapReport"
| "skippedLoop reportTime node (r # rs) gapReport =
     (case node (pr_Height r) of
        Inl err \<Rightarrow> Inl (Errorf ''getting tipset by height %d: %w'' [pr_Height r] err)
      | Inr tsgap \<Rightarrow>
          skippedLoop reportTime node rs
            (gapReport @
              [\<lparr>gr_Height = pr_Height r, gr_TipSet = ts_Key tsgap, gr_Task = pr_Task r,
                gr_Status = ''GAP'', gr_Reporter = ''gapIndexer'',
                gr_ReportedAt = reportTime\<rparr>]))"

definition detectSkippedTipSets ::
  "string \<Rightarrow> int \<Rightarrow> Database \<Rightarrow> lens_API \<Rightarrow> error + GapReport list" where
  "detectSkippedTipSets ProcessingStatusSkip reportTime db node =
     (case selectSkippedReports ProcessingStatusSkip db of
        Inl err \<Rightarrow> Inl (Errorf ''query processing report skips: %w'' [] err)
      | Inr skippedReports \<Rightarrow> skippedLoop reportTime node skippedReports [])"

subsection \<open>detectProcessingGaps\<close>

text \<open>
  \<^verbatim>\<open>chain.AllTasks\<close> is declared in another package and is a parameter. The loop
  walks the candidate heights; only a tipset whose height is the candidate's yields records.
\<close>

definition gapReportsFor :: "int \<Rightarrow> string list \<Rightarrow> TipSet \<Rightarrow> GapReport list" where
  "gapReportsFor reportTime AllTasks tsgap =
     map (\<lambda>task. \<lparr>gr_Height = ts_Height tsgap, gr_TipSet = ts_Key tsgap, gr_Task = task,
                   gr_Status = ''GAP'', gr_Reporter = ''gapIndexer'',
                   gr_ReportedAt = reportTime\<rparr>) AllTasks"

fun gapsLoop ::
  "int \<Rightarrow> string list \<Rightarrow> lens_API \<Rightarrow> int list \<Rightarrow> GapReport list \<Rightarrow> error + GapReport list" where
  "gapsLoop reportTime AllTasks node [] gapReport = Inr gapReport"
| "gapsLoop reportTime AllTasks node (gap # gaps) gapReport =
     (case node gap of
        Inl err \<Rightarrow> Inl (Errorf ''getting tipset by height %d: %w'' [gap] err)
      | Inr tsgap \<Rightarrow>
          if ts_Height tsgap = gap
          then gapsLoop reportTime AllTasks node gaps
                 (gapReport @ gapReportsFor reportTime AllTasks tsgap)
          else gapsLoop reportTime AllTasks node gaps gapReport)"

definition detectProcessingGaps ::
  "int \<Rightarrow> string list \<Rightarrow> Database \<Rightarrow> lens_API \<Rightarrow> error + GapReport list" where
  "detectProcessingGaps reportTime AllTasks db node =
     (case selectReportHeights db of
        Inl err \<Rightarrow> Inl (Errorf ''query processing report heights: %w'' [] err)
      | Inr reportHeights \<Rightarrow> gapsLoop reportTime AllTasks node (findEpochGaps reportHeights) [])"

section \<open>Gap auditor: fill (chain/gap/fill.go)\<close>

text \<open>
  \<^verbatim>\<open>queryGaps\<close>: the rows with status \<^verbatim>\<open>GAP\<close>, restricted to the configured tasks when
  there are any, by descending height.
\<close>

definition gapsByHeightDesc :: "GapReport list \<Rightarrow> GapReport list" where
  "gapsByHeightDesc rows = sort_key (\<lambda>r. - gr_Height r) rows"

definition queryGaps :: "Database \<Rightarrow> string list \<Rightarrow> error + GapReport list" where
  "queryGaps db tasks =
     (if tasks \<noteq> []
      then (case select_error db of
              Some err \<Rightarrow> Inl (Errorf ''querying gap reports: %w'' [] err)
            | None \<Rightarrow>
                Inr (gapsByHeightDesc
                       (filter (\<lambda>r. gr_Status r = ''GAP'' \<and> gr_Task r \<in> set tasks)
                          (gap_reports db))))
      else (case select_error db of
              Some err \<Rightarrow> Inl (Errorf ''querying gap reports: %w'' [] err)
            | None \<Rightarrow>
                Inr (gapsByHeightDesc (filter (\<lambda>r. gr_Status r = ''GAP'') (gap_reports db)))))"

text \<open>
  The body of the loop in \<^verbatim>\<open>GapFiller.Run\<close> for one gap. \<^verbatim>\<open>chain.NewTipSetIndexer\<close> and
  \<^verbatim>\<open>walker.Run\<close> are collaborators: the first gets the task list \<^verbatim>\<open>[]string{gap.Task}\<close> and
  returns the text of its error or an indexer, the second gets the indexer and the height
  range and returns the text of its error, if any (the text is what \<^verbatim>\<open>err.Error()\<close> gives).
\<close>

definition fillGap ::
  "(string list \<Rightarrow> string + 'ix) \<Rightarrow> ('ix \<Rightarrow> int \<Rightarrow> int \<Rightarrow> string option) \<Rightarrow> GapReport \<Rightarrow> GapReport" where
  "fillGap NewTipSetIndexer walkerRun gap =
     (case NewTipSetIndexer [gr_Task gap] of
        Inl err \<Rightarrow> gap\<lparr>gr_Status := err\<rparr>
      | Inr indexer \<Rightarrow>
          (case walkerRun indexer (gr_Height gap) (gr_Height gap) of
             Some err \<Rightarrow> gap\<lparr>gr_Status := err\<rparr>
           | None \<Rightarrow> gap\<lparr>gr_Status := ''FILLED''\<rparr>))"

text \<open>
  \<^verbatim>\<open>updateGaps\<close>: \<^verbatim>\<open>Model(&gaps).WherePK().Update()\<close> rewrites, for each given record, the
  row with the same primary key.
\<close>

definition samePK :: "GapReport \<Rightarrow> GapReport \<Rightarrow> bool" where
  "samePK a b =
     (gr_Height a = gr_Height b \<and> gr_TipSet a = gr_TipSet b \<and> gr_Task a = gr_Task b)"

definition updateRow :: "GapReport list \<Rightarrow> GapReport \<Rightarrow> GapReport" where
  "updateRow gaps row = (case find (samePK row) gaps of Some g \<Rightarrow> g | None \<Rightarrow> row)"

definition updateGaps :: "Database \<Rightarrow> GapReport list \<Rightarrow> error option \<times> Database" where
  "updateGaps db gaps =
     (if gaps = [] then (None, db)
      else (case update_error db of
              Some err \<Rightarrow> (Some err, db)
            | None \<Rightarrow> (None, db\<lparr>gap_reports := map (updateRow gaps) (gap_reports db)\<rparr>)))"

definition GapFiller_Run ::
  "(string list \<Rightarrow> string + 'ix) \<Rightarrow> ('ix \<Rightarrow> int \<Rightarrow> int \<Rightarrow> string option) \<Rightarrow>
   Database \<Rightarrow> string list \<Rightarrow> error option \<times> Database" where
  "GapFiller_Run NewTipSetIndexer walkerRun db tasks =
     (case queryGaps db tasks of
        Inl err \<Rightarrow> (Some err, db)
      | Inr gaps \<Rightarrow> updateGaps db (map (fillGap NewTipSetIndexer walkerRun) gaps))"

text \<open>
  The outcome of the re-drive of one gap, as one value: the error text of whichever
  collaborator failed, or nothing.
\<close>

definition redrive ::
  "(string list \<Rightarrow> string + 'ix) \<Rightarrow> ('ix \<Rightarrow> int \<Rightarrow> int \<Rightarrow> string option) \<Rightarrow> GapReport \<Rightarrow> string option" where
  "redrive NewTipSetIndexer walkerRun gap =
     (case NewTipSetIndexer [gr_Task gap] of
        Inl err \<Rightarrow> Some err
      | Inr indexer \<Rightarrow> walkerRun indexer (gr_Height gap) (gr_Height gap))"

definition selectedGap :: "string list \<Rightarrow> GapReport \<Rightarrow> bool" where
  "selectedGap tasks r = (gr_Status r = ''GAP'' \<and> (tasks = [] \<or> gr_Task r \<in> set tasks))"

section \<open>Message processor: batches (package message)\<close>

record ProcessingTipSet =
  pt_TipSet :: string
  pt_Height :: int

text \<open>
  One call of \<^verbatim>\<open>MarkTipSetMessagesComplete(ctx, tipset, height, completedAt, errorsDetected)\<close>;
  the store's state is the sequence of these calls. An error of the call itself is only
  logged.
\<close>

record Completion =
  cp_TipSet :: string
  cp_Height :: int
  cp_CompletedAt :: int
  cp_ErrorsDetected :: string

text \<open>
  The loop over the leased batch. \<open>idx\<close> is the position in the batch; \<open>ctxDone idx\<close> says
  whether the context is done when that item is reached, \<open>clock idx\<close> is \<^verbatim>\<open>p.clock.Now()\<close>
  when it completes, and \<open>processItem\<close> gives the text of the item's error, if any.
\<close>

fun batchLoop ::
  "(nat \<Rightarrow> bool) \<Rightarrow> (nat \<Rightarrow> int) \<Rightarrow> (ProcessingTipSet \<Rightarrow> string option) \<Rightarrow>
   nat \<Rightarrow> ProcessingTipSet list \<Rightarrow> Completion list \<Rightarrow> (bool \<times> error option) \<times> Completion list" where
  "batchLoop ctxDone clock processItem idx [] marks = ((False, None), marks)"
| "batchLoop ctxDone clock processItem idx (item # batch) marks =
     (if ctxDone idx then ((False, None), marks)
      else (case processItem item of
              Some err \<Rightarrow>
                batchLoop ctxDone clock processItem (Suc idx) batch
                  (marks @ [\<lparr>cp_TipSet = pt_TipSet item, cp_Height = pt_Height item,
                             cp_CompletedAt = clock idx, cp_ErrorsDetected = err\<rparr>])
            | None \<Rightarrow>
                batchLoop ctxDone clock processItem (Suc idx) batch
                  (marks @ [\<lparr>cp_TipSet = pt_TipSet item, cp_Height = pt_Height item,
                             cp_CompletedAt = clock idx, cp_ErrorsDetected = []\<rparr>])))"

text \<open>
  \<^verbatim>\<open>processBatch\<close>; \<open>lease\<close> is the result of \<^verbatim>\<open>LeaseTipSetMessages\<close>. Sleeping on an empty
  batch has no effect on the result.
\<close>

definition processBatch ::
  "(nat \<Rightarrow> bool) \<Rightarrow> (nat \<Rightarrow> int) \<Rightarrow> (ProcessingTipSet \<Rightarrow> string option) \<Rightarrow>
   (error + ProcessingTipSet list) \<Rightarrow> Completion list \<Rightarrow> (bool \<times> error option) \<times> Completion list" where
  "processBatch ctxDone clock processItem lease marks =
     (case lease of
        Inl err \<Rightarrow> ((True, Some err), marks)
      | Inr batch \<Rightarrow>
          if length batch = 0 then ((False, None), marks)
          else batchLoop ctxDone clock processItem 0 batch marks)"

text \<open>
  Modelled from the spec: \<^verbatim>\<open>wait.RepeatUntil\<close> is in another package of the repository. It
  is the loop that runs until the context is done or processing meets a fatal error: it
  calls the function again and again, returns the function's error when it gives one,
  returns without error when the function says it is done, and returns the context's
  error when the context is done between two calls. \<open>fuel\<close> bounds the number of calls;
  the result \<open>None\<close> says that the loop is still running when the fuel is used up.
\<close>

fun RepeatUntil ::
  "nat \<Rightarrow> (nat \<Rightarrow> error option) \<Rightarrow> (nat \<Rightarrow> 's \<Rightarrow> (bool \<times> error option) \<times> 's) \<Rightarrow>
   nat \<Rightarrow> 's \<Rightarrow> error option option \<times> 's" where
  "RepeatUntil 0 ctx f k s = (None, s)"
| "RepeatUntil (Suc fuel) ctx f k s =
     (case f k s of
        ((done, Some err), s') \<Rightarrow> (Some (Some err), s')
      | ((True, None), s') \<Rightarrow> (Some None, s')
      | ((False, None), s') \<Rightarrow>
          (case ctx k of
             Some err \<Rightarrow> (Some (Some err), s')
           | None \<Rightarrow> RepeatUntil fuel ctx f (Suc k) s'))"

text \<open>
  \<^verbatim>\<open>MessageProcessor.Run\<close>: the loop over \<^verbatim>\<open>processBatch\<close>. The context, the clock and the
  lease of the \<open>k\<close>-th call are given by \<open>k\<close>.
\<close>

definition MessageProcessor_Run ::
  "nat \<Rightarrow> (nat \<Rightarrow> error option) \<Rightarrow> (nat \<Rightarrow> nat \<Rightarrow> bool) \<Rightarrow> (nat \<Rightarrow> nat \<Rightarrow> int) \<Rightarrow>
   (ProcessingTipSet \<Rightarrow> string option) \<Rightarrow> (nat \<Rightarrow> error + ProcessingTipSet list) \<Rightarrow>
   Completion list \<Rightarrow> error option option \<times> Completion list" where
  "MessageProcessor_Run fuel ctx ctxDone clock processItem lease marks =
     RepeatUntil fuel ctx
       (\<lambda>k. processBatch (ctxDone k) (clock k) processItem (lease k)) 0 marks"

text \<open>The completion call that an item gets.\<close>

definition completionOf ::
  "(nat \<Rightarrow> int) \<Rightarrow> (ProcessingTipSet \<Rightarrow> string option) \<Rightarrow> nat \<times> ProcessingTipSet \<Rightarrow> Completion" where
  "completionOf clock processItem p =
     \<lparr>cp_TipSet = pt_TipSet (snd p), cp_Height = pt_Height (snd p),
      cp_CompletedAt = clock (fst p),
      cp_ErrorsDetected = (case processItem (snd p) of Some err \<Rightarrow> err | None \<Rightarrow> [])\<rparr>"

section \<open>Message processor: extraction of one tipset\<close>

text \<open>
  A chain message as the extraction reads it. \<^verbatim>\<open>Cid()\<close> and \<^verbatim>\<open>Serialize()\<close> are methods of
  the node library's message type; their results are carried with the message, as are the
  printed forms of the addresses and amounts.
\<close>

record types_Message =
  tm_Cid :: string
  tm_From :: string
  tm_To :: string
  tm_Value :: string
  tm_GasFeeCap :: string
  tm_GasPremium :: string
  tm_GasLimit :: int
  tm_Nonce :: nat
  tm_Method :: nat
  tm_Params :: "nat list"
  tm_Serialize :: "error + nat list"

text \<open>
  \<^verbatim>\<open>api.BlockMessages\<close>: the BLS messages of a block and the messages inside its signed
  secp messages.
\<close>

record api_BlockMessages =
  BlsMessages :: "types_Message list"
  SecpkMessages :: "types_Message list"

text \<open>The row types of model/messages.\<close>

record Message =
  msg_Cid :: string
  msg_From :: string
  msg_To :: string
  msg_Value :: string
  msg_GasFeeCap :: string
  msg_GasPremium :: string
  msg_GasLimit :: int
  msg_SizeBytes :: nat
  msg_Nonce :: nat
  msg_Method :: nat
  msg_Params :: "nat list"

record BlockMessage =
  bm_Block :: string
  bm_Message :: string

text \<open>
  The local variables of \<^verbatim>\<open>extractMessageModels\<close>. The two totals are \<^verbatim>\<open>int64\<close> sums.
  \<^verbatim>\<open>visor.NewProcessingMessage\<close> is declared in another package and is a parameter.
\<close>

record 'pm extraction =
  msgModels :: "Message list"
  bmsgModels :: "BlockMessage list"
  pmsgModels :: "'pm list"
  msgsSeen :: "string set"
  totalGasLimit :: int
  totalUniqGasLimit :: int

definition messageModel :: "types_Message \<Rightarrow> nat \<Rightarrow> Message" where
  "messageModel message msgSize =
     \<lparr>msg_Cid = tm_Cid message, msg_From = tm_From message, msg_To = tm_To message,
      msg_Value = tm_Value message, msg_GasFeeCap = tm_GasFeeCap message,
      msg_GasPremium = tm_GasPremium message, msg_GasLimit = tm_GasLimit message,
      msg_SizeBytes = msgSize, msg_Nonce = tm_Nonce message, msg_Method = tm_Method message,
      msg_Params = tm_Params message\<rparr>"

text \<open>The loop over \<^verbatim>\<open>vmm\<close>, the messages of one block.\<close>

fun messagesLoop ::
  "(types_Message \<Rightarrow> int \<Rightarrow> 'pm) \<Rightarrow> string \<Rightarrow> int \<Rightarrow> types_Message list \<Rightarrow>
   'pm extraction \<Rightarrow> error + 'pm extraction" where
  "messagesLoop NewProcessingMessage blk height [] st = Inr st"
| "messagesLoop NewProcessingMessage blk height (message # vmm) st =
     (let st1 = st\<lparr>bmsgModels := bmsgModels st @ [\<lparr>bm_Block = blk, bm_Message = tm_Cid message\<rparr>],
                    totalUniqGasLimit := wrap64 (totalUniqGasLimit st + tm_GasLimit message)\<rparr>
      in if tm_Cid message \<in> msgsSeen st1
         then messagesLoop NewProcessingMessage blk height vmm st1
         else
           (let st2 = st1\<lparr>totalGasLimit := wrap64 (totalGasLimit st1 + tm_GasLimit message),
                           pmsgModels := pmsgModels st1 @ [NewProcessingMessage message height]\<rparr>
            in case tm_Serialize message of
                 Inl err \<Rightarrow> Inl err
               | Inr b \<Rightarrow>
                   messagesLoop NewProcessingMessage blk height vmm
                     (st2\<lparr>msgModels := msgModels st2 @ [messageModel message (length b)],
                          msgsSeen := insert (tm_Cid message) (msgsSeen st2)\<rparr>)))"

text \<open>
  The loop over the blocks. \<open>blkMsgs\<close> is the Go map in the order of this iteration, as
  pairs of block CID and messages. \<open>ctx idx\<close> is \<^verbatim>\<open>ctx.Err()\<close> when the context is done at
  the start of iteration \<open>idx\<close>.
\<close>

fun blocksLoop ::
  "(types_Message \<Rightarrow> int \<Rightarrow> 'pm) \<Rightarrow> (nat \<Rightarrow> error option) \<Rightarrow> int \<Rightarrow> nat \<Rightarrow>
   (string \<times> api_BlockMessages) list \<Rightarrow> 'pm extraction \<Rightarrow> error + 'pm extraction" where
  "blocksLoop NewProcessingMessage ctx height idx [] st = Inr st"
| "blocksLoop NewProcessingMessage ctx height idx ((blk, msgs) # rest) st =
     (case ctx idx of
        Some err \<Rightarrow> Inl err
      | None \<Rightarrow>
          (case messagesLoop NewProcessingMessage blk height
                  (BlsMessages msgs @ SecpkMessages msgs) st of
             Inl err \<Rightarrow> Inl err
           | Inr st' \<Rightarrow> blocksLoop NewProcessingMessage ctx height (Suc idx) rest st'))"

text \<open>
  \<^verbatim>\<open>extractMessageModels\<close> up to the end of the loop: the three lists and the two gas
  totals. The gas economy figures computed from the totals afterwards are floating-point
  and are left out.
\<close>

definition extractMessageModels ::
  "(types_Message \<Rightarrow> int \<Rightarrow> 'pm) \<Rightarrow> (nat \<Rightarrow> error option) \<Rightarrow> int \<Rightarrow>
   (string \<times> api_BlockMessages) list \<Rightarrow> error + 'pm extraction" where
  "extractMessageModels NewProcessingMessage ctx height blkMsgs =
     blocksLoop NewProcessingMessage ctx height 0 blkMsgs
       \<lparr>msgModels = [], bmsgModels = [], pmsgModels = [], msgsSeen = {},
        totalGasLimit = 0, totalUniqGasLimit = 0\<rparr>"

definition allMessages :: "(string \<times> api_BlockMessages) list \<Rightarrow> (string \<times> types_Message) list" where
  "allMessages blkMsgs =
     concat (map (\<lambda>(blk, msgs). map (\<lambda>m. (blk, m)) (BlsMessages msgs @ SecpkMessages msgs)) blkMsgs)"

section \<open>Message rows: persistence (model/messages/message.go)\<close>









section \<open>Miner state diffing (chain/actors/builtin/miner/diff.go)\<close>

text \<open>A \<^verbatim>\<open>cbg.Deferred\<close> is the raw serialized bytes of a value.\<close>

type_synonym Deferred = "nat list"

text \<open>
  \<^verbatim>\<open>SectorOnChainInfo\<close> is declared in another package; the diff reads its
  \<^verbatim>\<open>Expiration\<close>. The pre-commit record is never inspected and is a type parameter.
\<close>

record SectorOnChainInfo =
  SectorNumber :: nat
  Activation :: int
  Expiration :: int
  DealWeight :: int

text \<open>
  The miner \<^verbatim>\<open>State\<close> interface as the diff uses it: the actor code, the two containers
  (or the error of loading them) and the two decoders of the state's version.
\<close>

record ('m, 'a, 'pc) State =
  Code :: ActorCode
  precommits :: "error + 'm"
  sectors :: "error + 'a"
  decodeSectorPreCommitOnChainInfo :: "Deferred \<Rightarrow> error + 'pc"
  decodeSectorOnChainInfo :: "Deferred \<Rightarrow> error + SectorOnChainInfo"

text \<open>
  A change as the container diffs report it (\<^verbatim>\<open>hamt.Change\<close>, \<^verbatim>\<open>amt.Change\<close>): its type,
  the key and the raw values before and after.
\<close>

datatype ChangeType = Add | Remove | Modify

record 'k Change =
  ch_Type :: ChangeType
  ch_Key :: 'k
  ch_Before :: Deferred
  ch_After :: Deferred

record 'pc PreCommitChanges =
  pc_Added :: "'pc list"
  pc_Removed :: "'pc list"

record SectorExtensions =
  se_From :: SectorOnChainInfo
  se_To :: SectorOnChainInfo

record SectorChanges =
  sc_Added :: "SectorOnChainInfo list"
  sc_Extended :: "SectorExtensions list"
  sc_Removed :: "SectorOnChainInfo list"

subsection \<open>Strategy selection\<close>

text \<open>
  \<^verbatim>\<open>miner3.SectorsAmtBitwidth\<close> and \<^verbatim>\<open>miner4.SectorsAmtBitwidth\<close> are constants of the actor
  libraries and are parameters here.
\<close>

definition SectorsAmtBitwidth :: "int \<Rightarrow> int \<Rightarrow> ActorCode \<Rightarrow> error + int" where
  "SectorsAmtBitwidth miner3_SectorsAmtBitwidth miner4_SectorsAmtBitwidth c =
     (if c = builtin0_StorageMinerActorCodeID then Inr 3
      else if c = builtin2_StorageMinerActorCodeID then Inr 3
      else if c = builtin3_StorageMinerActorCodeID then Inr miner3_SectorsAmtBitwidth
      else if c = builtin4_StorageMinerActorCodeID then Inr miner4_SectorsAmtBitwidth
      else Inl (UnknownActorCode c))"

definition arrayRequiresLegacyDiffing :: "ActorCode \<Rightarrow> ActorCode \<Rightarrow> int \<Rightarrow> int \<Rightarrow> bool" where
  "arrayRequiresLegacyDiffing preCode curCode pOpts cOpts =
     (if preCode = builtin0_StorageMarketActorCodeID then True
      else if preCode = builtin2_StorageMarketActorCodeID then True
      else if curCode = builtin0_StorageMarketActorCodeID then True
      else if curCode = builtin2_StorageMarketActorCodeID then True
      else if pOpts \<noteq> cOpts then True
      else False)"

text \<open>
  \<^verbatim>\<open>adt.MapOpts\<close> and its \<^verbatim>\<open>Equal\<close> are declared in another package; the options are
  a type parameter and \<open>Equal\<close> a parameter.
\<close>

definition mapRequiresLegacyDiffing ::
  "('o \<Rightarrow> 'o \<Rightarrow> bool) \<Rightarrow> ActorCode \<Rightarrow> ActorCode \<Rightarrow> 'o \<Rightarrow> 'o \<Rightarrow> bool" where
  "mapRequiresLegacyDiffing Equal preCode curCode pOpts cOpts =
     (if preCode = builtin0_StorageMinerActorCodeID then True
      else if preCode = builtin2_StorageMinerActorCodeID then True
      else if curCode = builtin0_StorageMinerActorCodeID then True
      else if curCode = builtin2_StorageMinerActorCodeID then True
      else if \<not> Equal pOpts cOpts then True
      else False)"

subsection \<open>Pre-commit diff\<close>

record ('m, 'a, 'pc) preCommitDiffContainer =
  pcd_Results :: "'pc PreCommitChanges"
  pcd_pre :: "('m, 'a, 'pc) State"
  pcd_after :: "('m, 'a, 'pc) State"

definition NewPreCommitDiffContainer ::
  "('m, 'a, 'pc) State \<Rightarrow> ('m, 'a, 'pc) State \<Rightarrow> ('m, 'a, 'pc) preCommitDiffContainer" where
  "NewPreCommitDiffContainer pre cur =
     \<lparr>pcd_Results = \<lparr>pc_Added = [], pc_Removed = []\<rparr>, pcd_pre = pre, pcd_after = cur\<rparr>"

definition preCommitDiffContainer_Add ::
  "('m, 'a, 'pc) preCommitDiffContainer \<Rightarrow> string \<Rightarrow> Deferred \<Rightarrow>
   error + ('m, 'a, 'pc) preCommitDiffContainer" where
  "preCommitDiffContainer_Add m key val =
     (case decodeSectorPreCommitOnChainInfo (pcd_after m) val of
        Inl err \<Rightarrow> Inl err
      | Inr sp \<Rightarrow>
          Inr (m\<lparr>pcd_Results := (pcd_Results m)\<lparr>pc_Added := pc_Added (pcd_Results m) @ [sp]\<rparr>\<rparr>))"

definition preCommitDiffContainer_Modify ::
  "('m, 'a, 'pc) preCommitDiffContainer \<Rightarrow> string \<Rightarrow> Deferred \<Rightarrow> Deferred \<Rightarrow>
   error + ('m, 'a, 'pc) preCommitDiffContainer" where
  "preCommitDiffContainer_Modify m key from to = Inr m"

definition preCommitDiffContainer_Remove ::
  "('m, 'a, 'pc) preCommitDiffContainer \<Rightarrow> string \<Rightarrow> Deferred \<Rightarrow>
   error + ('m, 'a, 'pc) preCommitDiffContainer" where
  "preCommitDiffContainer_Remove m key val =
     (case decodeSectorPreCommitOnChainInfo (pcd_pre m) val of
        Inl err \<Rightarrow> Inl err
      | Inr sp \<Rightarrow>
          Inr (m\<lparr>pcd_Results := (pcd_Results m)\<lparr>pc_Removed := pc_Removed (pcd_Results m) @ [sp]\<rparr>\<rparr>))"

text \<open>The loop \<^verbatim>\<open>for _, change := range changes\<close> with its switch on the change type.\<close>

fun preCommitChangesLoop ::
  "string Change list \<Rightarrow> ('m, 'a, 'pc) preCommitDiffContainer \<Rightarrow>
   error + ('m, 'a, 'pc) preCommitDiffContainer" where
  "preCommitChangesLoop [] diffContainer = Inr diffContainer"
| "preCommitChangesLoop (change # changes) diffContainer =
     (case (case ch_Type change of
              Add \<Rightarrow> preCommitDiffContainer_Add diffContainer (ch_Key change) (ch_After change)
            | Remove \<Rightarrow>
                preCommitDiffContainer_Remove diffContainer (ch_Key change) (ch_Before change)
            | Modify \<Rightarrow>
                preCommitDiffContainer_Modify diffContainer (ch_Key change)
                  (ch_Before change) (ch_After change)) of
        Inl err \<Rightarrow> Inl err
      | Inr diffContainer' \<Rightarrow> preCommitChangesLoop changes diffContainer')"

text \<open>
  \<^verbatim>\<open>DiffPreCommits\<close>. \<^verbatim>\<open>adt.MapOptsForActorCode\<close>, \<^verbatim>\<open>diff.GenericMap\<close> and \<^verbatim>\<open>diff.Hamt\<close> are
  declared in another package and are parameters. \<open>Hamt\<close> gets the two maps and the
  options of the previous side and returns the changes. \<open>GenericMap\<close> reports each
  difference it finds to the container's \<^verbatim>\<open>Add\<close>, \<^verbatim>\<open>Remove\<close> or \<^verbatim>\<open>Modify\<close>; it is given as
  the sequence of differences it reports, and the container's methods are run on them in
  that order, the first error ending the diff.
\<close>

definition DiffPreCommits ::
  "(ActorCode \<Rightarrow> error + 'o) \<Rightarrow> ('o \<Rightarrow> 'o \<Rightarrow> bool) \<Rightarrow>
   ('m \<Rightarrow> 'm \<Rightarrow> error + string Change list) \<Rightarrow>
   ('m \<Rightarrow> 'm \<Rightarrow> 'o \<Rightarrow> error + string Change list) \<Rightarrow>
   ('m, 'a, 'pc) State \<Rightarrow> ('m, 'a, 'pc) State \<Rightarrow> error + 'pc PreCommitChanges" where
  "DiffPreCommits MapOptsForActorCode Equal GenericMap Hamt pre cur =
     (case precommits pre of
        Inl err \<Rightarrow> Inl err
      | Inr prep \<Rightarrow>
     (case precommits cur of
        Inl err \<Rightarrow> Inl err
      | Inr curp \<Rightarrow>
     (case MapOptsForActorCode (Code pre) of
        Inl err \<Rightarrow> Inl err
      | Inr preOpts \<Rightarrow>
     (case MapOptsForActorCode (Code cur) of
        Inl err \<Rightarrow> Inl err
      | Inr curOpts \<Rightarrow>
          (let diffContainer = NewPreCommitDiffContainer pre cur
           in if mapRequiresLegacyDiffing Equal (Code pre) (Code cur) preOpts curOpts
              then (case GenericMap prep curp of
                      Inl err \<Rightarrow> Inl err
                    | Inr reported \<Rightarrow>
                        (case preCommitChangesLoop reported diffContainer of
                           Inl err \<Rightarrow> Inl err
                         | Inr diffContainer' \<Rightarrow> Inr (pcd_Results diffContainer')))
              else (case Hamt prep curp preOpts of
                      Inl err \<Rightarrow> Inl err
                    | Inr changes \<Rightarrow>
                        (case preCommitChangesLoop changes diffContainer of
                           Inl err \<Rightarrow> Inl err
                         | Inr diffContainer' \<Rightarrow> Inr (pcd_Results diffContainer'))))))))"

subsection \<open>Sector diff\<close>

record ('m, 'a, 'pc) sectorDiffContainer =
  sd_Results :: SectorChanges
  sd_pre :: "('m, 'a, 'pc) State"
  sd_after :: "('m, 'a, 'pc) State"

definition NewSectorDiffContainer ::
  "('m, 'a, 'pc) State \<Rightarrow> ('m, 'a, 'pc) State \<Rightarrow> ('m, 'a, 'pc) sectorDiffContainer" where
  "NewSectorDiffContainer pre cur =
     \<lparr>sd_Results = \<lparr>sc_Added = [], sc_Extended = [], sc_Removed = []\<rparr>,
      sd_pre = pre, sd_after = cur\<rparr>"

definition sectorDiffContainer_Add ::
  "('m, 'a, 'pc) sectorDiffContainer \<Rightarrow> nat \<Rightarrow> Deferred \<Rightarrow>
   error + ('m, 'a, 'pc) sectorDiffContainer" where
  "sectorDiffContainer_Add m key val =
     (case decodeSectorOnChainInfo (sd_after m) val of
        Inl err \<Rightarrow> Inl err
      | Inr si \<Rightarrow>
          Inr (m\<lparr>sd_Results := (sd_Results m)\<lparr>sc_Added := sc_Added (sd_Results m) @ [si]\<rparr>\<rparr>))"

definition sectorDiffContainer_Modify ::
  "('m, 'a, 'pc) sectorDiffContainer \<Rightarrow> nat \<Rightarrow> Deferred \<Rightarrow> Deferred \<Rightarrow>
   error + ('m, 'a, 'pc) sectorDiffContainer" where
  "sectorDiffContainer_Modify m key from to =
     (case decodeSectorOnChainInfo (sd_pre m) from of
        Inl err \<Rightarrow> Inl err
      | Inr siFrom \<Rightarrow>
          (case decodeSectorOnChainInfo (sd_after m) to of
             Inl err \<Rightarrow> Inl err
           | Inr siTo \<Rightarrow>
               if Expiration siFrom \<noteq> Expiration siTo
               then Inr (m\<lparr>sd_Results := (sd_Results m)
                            \<lparr>sc_Extended := sc_Extended (sd_Results m) @
                                             [\<lparr>se_From = siFrom, se_To = siTo\<rparr>]\<rparr>\<rparr>)
               else Inr m))"

definition sectorDiffContainer_Remove ::
  "('m, 'a, 'pc) sectorDiffContainer \<Rightarrow> nat \<Rightarrow> Deferred \<Rightarrow>
   error + ('m, 'a, 'pc) sectorDiffContainer" where
  "sectorDiffContainer_Remove m key val =
     (case decodeSectorOnChainInfo (sd_pre m) val of
        Inl err \<Rightarrow> Inl err
      | Inr si \<Rightarrow>
          Inr (m\<lparr>sd_Results := (sd_Results m)\<lparr>sc_Removed := sc_Removed (sd_Results m) @ [si]\<rparr>\<rparr>))"

fun sectorChangesLoop ::
  "nat Change list \<Rightarrow> ('m, 'a, 'pc) sectorDiffContainer \<Rightarrow>
   error + ('m, 'a, 'pc) sectorDiffContainer" where
  "sectorChangesLoop [] diffContainer = Inr diffContainer"
| "sectorChangesLoop (change # changes) diffContainer =
     (case (case ch_Type change of
              Add \<Rightarrow> sectorDiffContainer_Add diffContainer (ch_Key change) (ch_After change)
            | Remove \<Rightarrow>
                sectorDiffContainer_Remove diffContainer (ch_Key change) (ch_Before change)
            | Modify \<Rightarrow>
                sectorDiffContainer_Modify diffContainer (ch_Key change)
                  (ch_Before change) (ch_After change)) of
        Inl err \<Rightarrow> Inl err
      | Inr diffContainer' \<Rightarrow> sectorChangesLoop changes diffContainer')"

text \<open>
  \<^verbatim>\<open>DiffSectors\<close>, with \<^verbatim>\<open>diff.GenericArray\<close> and \<^verbatim>\<open>diff.Amt\<close> as parameters in the same way
  as for the pre-commit diff; \<open>Amt\<close> gets the bitwidth of the previous side.
\<close>

definition DiffSectors ::
  "int \<Rightarrow> int \<Rightarrow> ('a \<Rightarrow> 'a \<Rightarrow> error + nat Change list) \<Rightarrow>
   ('a \<Rightarrow> 'a \<Rightarrow> int \<Rightarrow> error + nat Change list) \<Rightarrow>
   ('m, 'a, 'pc) State \<Rightarrow> ('m, 'a, 'pc) State \<Rightarrow> error + SectorChanges" where
  "DiffSectors miner3_SectorsAmtBitwidth miner4_SectorsAmtBitwidth GenericArray Amt pre cur =
     (case sectors pre of
        Inl err \<Rightarrow> Inl err
      | Inr pres \<Rightarrow>
     (case sectors cur of
        Inl err \<Rightarrow> Inl err
      | Inr curs \<Rightarrow>
     (case SectorsAmtBitwidth miner3_SectorsAmtBitwidth miner4_SectorsAmtBitwidth (Code pre) of
        Inl err \<Rightarrow> Inl err
      | Inr preOpts \<Rightarrow>
     (case SectorsAmtBitwidth miner3_SectorsAmtBitwidth miner4_SectorsAmtBitwidth (Code cur) of
        Inl err \<Rightarrow> Inl err
      | Inr curOpts \<Rightarrow>
          (let diffContainer = NewSectorDiffContainer pre cur
           in if arrayRequiresLegacyDiffing (Code pre) (Code cur) preOpts curOpts
              then (case GenericArray pres curs of
                      Inl err \<Rightarrow> Inl err
                    | Inr reported \<Rightarrow>
                        (case sectorChangesLoop reported diffContainer of
                           Inl err \<Rightarrow> Inl err
                         | Inr diffContainer' \<Rightarrow> Inr (sd_Results diffContainer')))
              else (case Amt pres curs preOpts of
                      Inl err \<Rightarrow> Inl err
                    | Inr changes \<Rightarrow>
                        (case sectorChangesLoop changes diffContainer of
                           Inl err \<Rightarrow> Inl err
                         | Inr diffContainer' \<Rightarrow> Inr (sd_Results diffContainer'))))))))"

section \<open>Auxiliary definitions for the properties\<close>

text \<open>The heights strictly between the neighbours of a list of heights, pair by pair.\<close>

fun between :: "int list \<Rightarrow> int list" where
  "between (prev # cur # rest) = [cur + 1..prev - 1] @ between (cur # rest)"
| "between _ = []"

definition report_at :: "int \<Rightarrow> ProcessingReport" where
  "report_at h = \<lparr>pr_Height = h, pr_Task = ''messages'', pr_Status = ''OK''\<rparr>"



text \<open>A small store and chain for the gap detectors: height 2 is a null round.\<close>

definition tipset_at :: "int \<Rightarrow> TipSet" where
  "tipset_at h =
     \<lparr>ts_Height = (if h = 2 then 3 else h),
      ts_Key = (if h = 2 then ''{bafy3}'' else ''{bafy0}'')\<rparr>"

definition sample_db :: Database where
  "sample_db =
     \<lparr>processing_reports =
        [\<lparr>pr_Height = 1, pr_Task = ''messages'', pr_Status = ''OK''\<rparr>,
         \<lparr>pr_Height = 3, pr_Task = ''messages'', pr_Status = ''OK''\<rparr>,
         \<lparr>pr_Height = 3, pr_Task = ''blocks'', pr_Status = ''SKIP''\<rparr>],
      gap_reports = [], select_error = None, update_error = None\<rparr>"

definition failing_node :: lens_API where
  "failing_node h = Inl (External ''unavailable'')"

text \<open>A gap ledger with two open gaps, and a re-drive that fails at height 120.\<close>

definition gap_at :: "int \<Rightarrow> string \<Rightarrow> string \<Rightarrow> GapReport" where
  "gap_at h task status =
     \<lparr>gr_Height = h, gr_TipSet = ''{bafy0}'', gr_Task = task, gr_Status = status,
      gr_Reporter = ''gapIndexer'', gr_ReportedAt = 7\<rparr>"

definition gap_db :: Database where
  "gap_db = \<lparr>processing_reports = [],
             gap_reports = [gap_at 120 ''messages'' ''GAP'', gap_at 121 ''messages'' ''GAP'',
                            gap_at 121 ''blocks'' ''FILLED''],
             select_error = None, update_error = None\<rparr>"

definition sample_indexer :: "string list \<Rightarrow> string + unit" where
  "sample_indexer tasks = Inr ()"

definition sample_walker :: "unit \<Rightarrow> int \<Rightarrow> int \<Rightarrow> string option" where
  "sample_walker indexer minHeight maxHeight = (if minHeight = 120 then Some ''boom'' else None)"

text \<open>A leased batch of three tipsets whose second item fails.\<close>

definition sample_batch :: "ProcessingTipSet list" where
  "sample_batch =
     [\<lparr>pt_TipSet = ''{bafya}'', pt_Height = 10\<rparr>,
      \<lparr>pt_TipSet = ''{bafyb}'', pt_Height = 11\<rparr>,
      \<lparr>pt_TipSet = ''{bafyc}'', pt_Height = 12\<rparr>]"

definition sample_processItem :: "ProcessingTipSet \<Rightarrow> string option" where
  "sample_processItem item = (if pt_Height item = 11 then Some ''get tipset: boom'' else None)"

definition never_done :: "nat \<Rightarrow> bool" where
  "never_done idx = False"

definition sample_clock :: "nat \<Rightarrow> int" where
  "sample_clock idx = 100 + int idx"

text \<open>
  The invariant of the extraction loops: the seen set holds exactly the CIDs of the
  message rows made so far, and no two rows have the same CID.
\<close>

definition seenInv :: "'pm extraction \<Rightarrow> bool" where
  "seenInv st = (msgsSeen st = set (map msg_Cid (msgModels st)) \<and>
                 distinct (map msg_Cid (msgModels st)))"

text \<open>A tipset of two blocks that share the message \<^verbatim>\<open>mA\<close>.\<close>

definition chain_message :: "string \<Rightarrow> types_Message" where
  "chain_message c =
     \<lparr>tm_Cid = c, tm_From = ''f01'', tm_To = ''f02'', tm_Value = ''0'',
      tm_GasFeeCap = ''100'', tm_GasPremium = ''1'', tm_GasLimit = 1000, tm_Nonce = 0,
      tm_Method = 0, tm_Params = [], tm_Serialize = Inr [130, 0, 85]\<rparr>"

definition sample_blkMsgs :: "(string \<times> api_BlockMessages) list" where
  "sample_blkMsgs =
     [(''blk1'', \<lparr>BlsMessages = [chain_message ''mA'', chain_message ''mB''],
                  SecpkMessages = []\<rparr>),
      (''blk2'', \<lparr>BlsMessages = [chain_message ''mA''],
                  SecpkMessages = [chain_message ''mC'']\<rparr>)]"

definition sample_NewProcessingMessage :: "types_Message \<Rightarrow> int \<Rightarrow> string \<times> int" where
  "sample_NewProcessingMessage m height = (tm_Cid m, height)"

definition ctx_live :: "nat \<Rightarrow> error option" where
  "ctx_live idx = None"







text \<open>What the diffs make of a list of changes, change by change.\<close>

definition dropModified :: "error + 'k Change list \<Rightarrow> error + 'k Change list" where
  "dropModified r =
     (case r of Inl err \<Rightarrow> Inl err
              | Inr changes \<Rightarrow> Inr (filter (\<lambda>c. ch_Type c \<noteq> Modify) changes))"

definition decodedOf :: "(Deferred \<Rightarrow> error + 'x) \<Rightarrow> Deferred \<Rightarrow> 'x list" where
  "decodedOf decode val = (case decode val of Inl err \<Rightarrow> [] | Inr x \<Rightarrow> [x])"

definition addedOf :: "('m, 'a, 'pc) State \<Rightarrow> string Change \<Rightarrow> 'pc list" where
  "addedOf cur c =
     (if ch_Type c = Add then decodedOf (decodeSectorPreCommitOnChainInfo cur) (ch_After c)
      else [])"

definition removedOf :: "('m, 'a, 'pc) State \<Rightarrow> string Change \<Rightarrow> 'pc list" where
  "removedOf pre c =
     (if ch_Type c = Remove then decodedOf (decodeSectorPreCommitOnChainInfo pre) (ch_Before c)
      else [])"

definition extensionOf ::
  "('m, 'a, 'pc) State \<Rightarrow> ('m, 'a, 'pc) State \<Rightarrow> nat Change \<Rightarrow> SectorExtensions list" where
  "extensionOf pre cur c =
     (if ch_Type c = Modify
      then (case decodeSectorOnChainInfo pre (ch_Before c) of
              Inl err \<Rightarrow> []
            | Inr siFrom \<Rightarrow>
                (case decodeSectorOnChainInfo cur (ch_After c) of
                   Inl err \<Rightarrow> []
                 | Inr siTo \<Rightarrow>
                     if Expiration siFrom \<noteq> Expiration siTo
                     then [\<lparr>se_From = siFrom, se_To = siTo\<rparr>]
                     else []))
      else [])"

text \<open>
  Two miner states of actors version 3 whose values are four bytes: sector number,
  activation, expiration and deal weight.
\<close>

definition sample_decode :: "Deferred \<Rightarrow> error + SectorOnChainInfo" where
  "sample_decode val =
     (case val of
        [n, a, e, w] \<Rightarrow>
          Inr \<lparr>SectorNumber = n, Activation = int a, Expiration = int e, DealWeight = int w\<rparr>
      | _ \<Rightarrow> Inl (External ''malformed sector''))"

definition sample_state :: "(unit, unit, Deferred) State" where
  "sample_state =
     \<lparr>Code = builtin3_StorageMinerActorCodeID, precommits = Inr (), sectors = Inr (),
      decodeSectorPreCommitOnChainInfo = (\<lambda>val. Inr val),
      decodeSectorOnChainInfo = sample_decode\<rparr>"

definition sector_changes :: "nat Change list" where
  "sector_changes =
     [\<lparr>ch_Type = Modify, ch_Key = 10, ch_Before = [10, 1, 100, 5], ch_After = [10, 1, 100, 6]\<rparr>,
      \<lparr>ch_Type = Modify, ch_Key = 11, ch_Before = [11, 1, 100, 5], ch_After = [11, 1, 200, 5]\<rparr>,
      \<lparr>ch_Type = Add, ch_Key = 77, ch_Before = [], ch_After = [77, 1, 50, 0]\<rparr>,
      \<lparr>ch_Type = Remove, ch_Key = 42, ch_Before = [42, 1, 100, 0], ch_After = []\<rparr>]"

definition precommit_changes :: "string Change list" where
  "precommit_changes =
     [\<lparr>ch_Type = Modify, ch_Key = ''10'', ch_Before = [1], ch_After = [2]\<rparr>,
      \<lparr>ch_Type = Add, ch_Key = ''77'', ch_Before = [], ch_After = [7]\<rparr>,
      \<lparr>ch_Type = Remove, ch_Key = ''42'', ch_Before = [4], ch_After = []\<rparr>]"

definition sample_MapOpts :: "ActorCode \<Rightarrow> error + nat" where
  "sample_MapOpts c = Inr 5"

section \<open>Properties of findEpochGaps\<close>

lemma appendRange_upto: "appendRange lo hi acc = acc @ [lo..hi - 1]"
proof (induction lo hi acc rule: appendRange.induct)
  case (1 gap hi maybeGap)
  show ?case
  proof (cases "gap < hi")
    case True
    then show ?thesis
      using 1 by (subst appendRange.simps) (simp add: upto_rec1[of gap "hi - 1"])
  next
    case False
    then show ?thesis by (subst appendRange.simps) simp
  qed
qed

lemma wrap64_id: "is_int64 x \<Longrightarrow> wrap64 x = x"
  unfolding wrap64_def is_int64_def int64_min_def int64_max_def
  by simp

lemma wrap64_succ:
  assumes "is_int64 c" and "is_int64 p" and "c < p"
  shows "wrap64 (c + 1) = c + 1"
proof -
  have "is_int64 (c + 1)"
    using assms unfolding is_int64_def by linarith
  then show ?thesis by (rule wrap64_id)
qed

lemma scanReports_between:
  assumes "sorted_wrt (>) (map pr_Height (prev # rest))"
    and "\<forall>p\<in>set (prev # rest). is_int64 (pr_Height p)"
  shows "scanReports prev rest acc = acc @ between (map pr_Height (prev # rest))"
  using assms
proof (induction rest arbitrary: prev acc)
  case Nil
  then show ?case by simp
next
  case (Cons cur rest)
  have w: "wrap64 (pr_Height cur + 1) = pr_Height cur + 1"
    using Cons.prems by (intro wrap64_succ[of _ "pr_Height prev"]) auto
  have ih: "scanReports cur rest acc' = acc' @ between (map pr_Height (cur # rest))" for acc'
    using Cons.prems by (intro Cons.IH) auto
  show ?case
    by (simp add: w ih appendRange_upto)
qed

lemma set_between:
  "set (between hs) = {g. \<exists>i. Suc i < length hs \<and> hs ! Suc i < g \<and> g < hs ! i}"
proof (induction hs rule: between.induct)
  case (1 prev cur rest)
  let ?hs = "prev # cur # rest"
  have "{g. \<exists>i. Suc i < length ?hs \<and> ?hs ! Suc i < g \<and> g < ?hs ! i}
      = {g. cur < g \<and> g < prev} \<union>
        {g. \<exists>i. Suc i < length (cur # rest) \<and> (cur # rest) ! Suc i < g \<and> g < (cur # rest) ! i}"
    (is "?L = ?A \<union> ?B")
  proof (intro set_eqI iffI)
    fix g assume "g \<in> ?L"
    then obtain i where i: "Suc i < length ?hs" "?hs ! Suc i < g" "g < ?hs ! i" by blast
    show "g \<in> ?A \<union> ?B"
    proof (cases i)
      case 0
      with i show ?thesis by simp
    next
      case (Suc j)
      with i have "Suc j < length (cur # rest) \<and> (cur # rest) ! Suc j < g \<and> g < (cur # rest) ! j"
        by simp
      then show ?thesis by blast
    qed
  next
    fix g assume "g \<in> ?A \<union> ?B"
    then show "g \<in> ?L"
    proof
      assume "g \<in> ?A"
      then have "Suc 0 < length ?hs \<and> ?hs ! Suc 0 < g \<and> g < ?hs ! 0" by simp
      then show ?thesis by blast
    next
      assume "g \<in> ?B"
      then obtain j where
        "Suc j < length (cur # rest)" "(cur # rest) ! Suc j < g" "g < (cur # rest) ! j"
        by blast
      then have "Suc (Suc j) < length ?hs \<and> ?hs ! Suc (Suc j) < g \<and> g < ?hs ! Suc j" by simp
      then show ?thesis by blast
    qed
  qed
  moreover have "set (between ?hs) = ?A \<union> set (between (cur # rest))"
    by auto
  ultimately show ?case using 1 by simp
qed simp_all

lemma between_bounds:
  assumes "sorted_wrt (>) hs" and "g \<in> set (between hs)"
  shows "last hs < g \<and> g < hd hs"
  using assms
proof (induction hs rule: between.induct)
  case (1 prev cur rest)
  have lc: "last (cur # rest) \<le> cur"
    using "1.prems"(1) by (cases rest) (auto simp: less_imp_le)
  from "1.prems"(2) consider "cur < g \<and> g < prev" | "g \<in> set (between (cur # rest))"
    by auto
  then show ?case
  proof cases
    case 1
    then show ?thesis using lc by simp
  next
    case 2
    then have "last (cur # rest) < g \<and> g < cur"
      using "1.IH" "1.prems"(1) by simp
    moreover have "cur < prev" using "1.prems"(1) by simp
    ultimately show ?thesis by simp
  qed
qed simp_all

lemma distinct_between:
  assumes "sorted_wrt (>) hs"
  shows "distinct (between hs)"
  using assms
proof (induction hs rule: between.induct)
  case (1 prev cur rest)
  have "g \<in> set (between (cur # rest)) \<Longrightarrow> g < cur" for g
    using between_bounds[of "cur # rest" g] "1.prems" by simp
  then have "set [cur + 1..prev - 1] \<inter> set (between (cur # rest)) = {}"
    by fastforce
  moreover have "distinct (between (cur # rest))"
    using 1 by simp
  ultimately show ?case by simp
qed simp_all

lemma findEpochGaps_unsorted:
  assumes "prs \<noteq> []" and "sorted_wrt (>) (map pr_Height prs)"
    and "\<forall>p\<in>set prs. is_int64 (pr_Height p)"
  shows "findEpochGaps prs =
           sort (between (map pr_Height prs) @ [0..pr_Height (last prs) - 1])"
proof -
  from assms(1) obtain prev rest where prs: "prs = prev # rest" by (cases prs) auto
  have "scanReports prev rest [] = between (map pr_Height (prev # rest))"
    using scanReports_between[of prev rest "[]"] assms(2,3) unfolding prs by simp
  then show ?thesis
    unfolding findEpochGaps_def prs by (simp add: appendRange_upto del: last.simps)
qed

text \<open>
  C3. For a non-empty list of reports whose heights are strictly descending (so distinct)
  \<^verbatim>\<open>int64\<close> values, \<open>findEpochGaps\<close> returns an ascending list without repetitions that
  holds exactly the heights strictly between two neighbouring reports (there are such
  heights exactly when the neighbours differ by more than one) and the heights from 0 up
  to, not including, the height of the last (oldest) report.
\<close>

theorem findEpochGaps_candidates:
  assumes "prs \<noteq> []" and "sorted_wrt (>) (map pr_Height prs)"
    and "\<forall>p\<in>set prs. is_int64 (pr_Height p)"
  shows "sorted (findEpochGaps prs) \<and> distinct (findEpochGaps prs) \<and>
         set (findEpochGaps prs) =
           {g. \<exists>i. Suc i < length prs \<and>
                  pr_Height (prs ! Suc i) < g \<and> g < pr_Height (prs ! i)}
           \<union> {g. 0 \<le> g \<and> g < pr_Height (last prs)}"
proof -
  let ?hs = "map pr_Height prs"
  let ?low = "[0..pr_Height (last prs) - 1]"
  have eq: "findEpochGaps prs = sort (between ?hs @ ?low)"
    using assms by (rule findEpochGaps_unsorted)
  have lasths: "last ?hs = pr_Height (last prs)"
    using assms(1) by (simp add: last_map)
  have above: "g \<in> set (between ?hs) \<Longrightarrow> pr_Height (last prs) < g" for g
    using between_bounds[OF assms(2), of g] lasths by simp
  have disj: "set (between ?hs) \<inter> set ?low = {}"
    using above by fastforce
  have d: "distinct (between ?hs @ ?low)"
    using distinct_between[OF assms(2)] disj by simp
  have s1: "set (between ?hs) =
      {g. \<exists>i. Suc i < length prs \<and> pr_Height (prs ! Suc i) < g \<and> g < pr_Height (prs ! i)}"
    unfolding set_between
  proof (intro set_eqI iffI; clarify)
    fix g i assume "Suc i < length ?hs" "?hs ! Suc i < g" "g < ?hs ! i"
    then have "Suc i < length prs \<and> pr_Height (prs ! Suc i) < g \<and> g < pr_Height (prs ! i)"
      by simp
    then show "\<exists>i. Suc i < length prs \<and> pr_Height (prs ! Suc i) < g \<and> g < pr_Height (prs ! i)"
      by blast
  next
    fix g i assume "Suc i < length prs" "pr_Height (prs ! Suc i) < g" "g < pr_Height (prs ! i)"
    then have "Suc i < length ?hs \<and> ?hs ! Suc i < g \<and> g < ?hs ! i"
      by simp
    then show "\<exists>i. Suc i < length ?hs \<and> ?hs ! Suc i < g \<and> g < ?hs ! i"
      by blast
  qed
  have s2: "set ?low = {g. 0 \<le> g \<and> g < pr_Height (last prs)}"
    by auto
  show ?thesis
    unfolding eq using d s1 s2 by simp
qed

text \<open>
  The theorem at the recorded heights 10, 8, 5, where the candidates are
  0, 1, 2, 3, 4, 6, 7, 9.
\<close>

theorem findEpochGaps_candidates_witness:
  "findEpochGaps [report_at 10, report_at 8, report_at 5] = [0, 1, 2, 3, 4, 6, 7, 9] \<and>
   set (findEpochGaps [report_at 10, report_at 8, report_at 5]) =
     {g. \<exists>i. Suc i < length [report_at 10, report_at 8, report_at 5] \<and>
            pr_Height ([report_at 10, report_at 8, report_at 5] ! Suc i) < g \<and>
            g < pr_Height ([report_at 10, report_at 8, report_at 5] ! i)}
     \<union> {g. 0 \<le> g \<and> g < pr_Height (last [report_at 10, report_at 8, report_at 5])}"
proof -
  let ?prs = "[report_at 10, report_at 8, report_at 5]"
  have h1: "?prs \<noteq> []" by simp
  have h2: "sorted_wrt (>) (map pr_Height ?prs)" by (simp add: report_at_def)
  have h3: "\<forall>p\<in>set ?prs. is_int64 (pr_Height p)"
    by (simp add: report_at_def is_int64_def int64_min_def int64_max_def)
  have ev: "findEpochGaps ?prs = [0, 1, 2, 3, 4, 6, 7, 9]"
    by (simp add: findEpochGaps_def report_at_def appendRange_upto wrap64_def upto.simps)
  from findEpochGaps_candidates[OF h1 h2 h3] ev show ?thesis by blast
qed

section \<open>Properties of the gap detectors\<close>

text \<open>
  The query for the recorded heights gives strictly descending heights, which is what the
  property of \<open>findEpochGaps\<close> asks of its input.
\<close>

lemma set_distinctOnHeight: "set (distinctOnHeight rows) \<subseteq> set rows"
proof (induction rows rule: distinctOnHeight.induct)
  case 1
  then show ?case by simp
next
  case (2 r rs)
  then show ?case by auto
qed

lemma distinctOnHeight_descending:
  assumes "sorted_wrt (\<lambda>a b. pr_Height a \<ge> pr_Height b) rows"
  shows "sorted_wrt (\<lambda>a b. pr_Height a > pr_Height b) (distinctOnHeight rows)"
  using assms
proof (induction rows rule: distinctOnHeight.induct)
  case 1
  then show ?case by simp
next
  case (2 r rs)
  let ?rest = "filter (\<lambda>x. pr_Height x \<noteq> pr_Height r) rs"
  have "sorted_wrt (\<lambda>a b. pr_Height a \<ge> pr_Height b) ?rest"
    using "2.prems" by (simp add: sorted_wrt_filter)
  then have ih: "sorted_wrt (\<lambda>a b. pr_Height a > pr_Height b) (distinctOnHeight ?rest)"
    by (rule "2.IH")
  have "\<forall>x\<in>set (distinctOnHeight ?rest). pr_Height r > pr_Height x"
  proof
    fix x assume "x \<in> set (distinctOnHeight ?rest)"
    then have "x \<in> set ?rest" using set_distinctOnHeight by blast
    then have "x \<in> set rs" "pr_Height x \<noteq> pr_Height r" by simp_all
    moreover from "2.prems" \<open>x \<in> set rs\<close> have "pr_Height r \<ge> pr_Height x" by simp
    ultimately show "pr_Height r > pr_Height x" by simp
  qed
  with ih show ?case by simp
qed

lemma orderByHeightDesc_sorted:
  "sorted_wrt (\<lambda>a b. pr_Height a \<ge> pr_Height b) (orderByHeightDesc rows)"
proof -
  have "sorted (map (\<lambda>r. - pr_Height r) (orderByHeightDesc rows))"
    unfolding orderByHeightDesc_def by (rule sorted_sort_key)
  then show ?thesis
    by (simp add: sorted_map sorted_wrt_iff_nth_less)
qed

lemma selectReportHeights_descending:
  assumes "selectReportHeights db = Inr prs"
  shows "sorted_wrt (>) (map pr_Height prs)"
proof -
  from assms have "prs = distinctOnHeight (orderByHeightDesc (processing_reports db))"
    by (simp add: selectReportHeights_def split: option.splits)
  then show ?thesis
    using distinctOnHeight_descending[OF orderByHeightDesc_sorted]
    by (simp add: sorted_wrt_map)
qed

lemma gapsLoop_closed:
  assumes "\<forall>g\<in>set gaps. node g = Inr (ts g)"
  shows "gapsLoop t tasks node gaps acc =
         Inr (acc @ concat (map (\<lambda>g. if ts_Height (ts g) = g
                                       then gapReportsFor t tasks (ts g) else []) gaps))"
  using assms by (induction gaps arbitrary: acc) simp_all

lemma gapReportsFor_height:
  "r \<in> set (gapReportsFor t tasks tsgap) \<Longrightarrow> gr_Height r = ts_Height tsgap"
  by (auto simp: gapReportsFor_def)

text \<open>
  C4. When the query for the recorded heights and every tipset lookup succeed,
  \<open>detectProcessingGaps\<close> returns, candidate by candidate in the order of
  \<open>findEpochGaps\<close>, one record with status \<^verbatim>\<open>GAP\<close> for each task of \<open>AllTasks\<close> at the
  candidate's height and the returned tipset's key when the returned tipset's height is
  the candidate, and nothing for the candidate otherwise; in particular a candidate for
  which a higher tipset is returned (a null round) has no record at its height.
\<close>

theorem detectProcessingGaps_per_candidate:
  assumes sel: "selectReportHeights db = Inr reportHeights"
    and node: "\<forall>g\<in>set (findEpochGaps reportHeights). node g = Inr (ts g)"
  shows "\<exists>out. detectProcessingGaps reportTime AllTasks db node = Inr out \<and>
           out = concat (map (\<lambda>g. if ts_Height (ts g) = g
                                   then map (\<lambda>task. \<lparr>gr_Height = g, gr_TipSet = ts_Key (ts g),
                                                      gr_Task = task, gr_Status = ''GAP'',
                                                      gr_Reporter = ''gapIndexer'',
                                                      gr_ReportedAt = reportTime\<rparr>) AllTasks
                                   else [])
                             (findEpochGaps reportHeights)) \<and>
           (\<forall>g\<in>set (findEpochGaps reportHeights).
              g < ts_Height (ts g) \<longrightarrow> (\<forall>r\<in>set out. gr_Height r \<noteq> g))"
proof -
  let ?cands = "findEpochGaps reportHeights"
  let ?per = "\<lambda>g. if ts_Height (ts g) = g then gapReportsFor reportTime AllTasks (ts g) else []"
  let ?out = "concat (map ?per ?cands)"
  have run: "detectProcessingGaps reportTime AllTasks db node = Inr ?out"
    unfolding detectProcessingGaps_def sel
    using gapsLoop_closed[OF node, of reportTime AllTasks "[]"]
    by simp
  have shape: "?per g = (if ts_Height (ts g) = g
                         then map (\<lambda>task. \<lparr>gr_Height = g, gr_TipSet = ts_Key (ts g),
                                            gr_Task = task, gr_Status = ''GAP'',
                                            gr_Reporter = ''gapIndexer'',
                                            gr_ReportedAt = reportTime\<rparr>) AllTasks
                         else [])" for g
    by (simp add: gapReportsFor_def)
  have null: "gr_Height r \<noteq> g" if "g < ts_Height (ts g)" "r \<in> set ?out" for g r
  proof -
    from that(2) obtain g' where g': "g' \<in> set ?cands" "r \<in> set (?per g')" by auto
    then have "ts_Height (ts g') = g'" "gr_Height r = g'"
      by (auto split: if_splits dest: gapReportsFor_height)
    with that(1) show ?thesis by auto
  qed
  show ?thesis
    using run shape null by (intro exI[of _ ?out]) (simp only: simp_thms, blast)
qed

text \<open>
  The theorem on a store with reports at heights 3 and 1: the candidates are 0 and 2,
  height 0 has a tipset and height 2 is a null round.
\<close>

theorem detectProcessingGaps_per_candidate_witness:
  "detectProcessingGaps 7 [''messages'', ''blocks''] sample_db (\<lambda>h. Inr (tipset_at h)) =
     Inr [\<lparr>gr_Height = 0, gr_TipSet = ''{bafy0}'', gr_Task = ''messages'', gr_Status = ''GAP'',
           gr_Reporter = ''gapIndexer'', gr_ReportedAt = 7\<rparr>,
          \<lparr>gr_Height = 0, gr_TipSet = ''{bafy0}'', gr_Task = ''blocks'', gr_Status = ''GAP'',
           gr_Reporter = ''gapIndexer'', gr_ReportedAt = 7\<rparr>]"
proof -
  let ?heights = "[\<lparr>pr_Height = 3, pr_Task = ''messages'', pr_Status = ''OK''\<rparr>,
                   \<lparr>pr_Height = 1, pr_Task = ''messages'', pr_Status = ''OK''\<rparr>]"
  have sel: "selectReportHeights sample_db = Inr ?heights"
    by (simp add: selectReportHeights_def sample_db_def orderByHeightDesc_def)
  have cands: "findEpochGaps ?heights = [0, 2]"
    by (simp add: findEpochGaps_def appendRange_upto wrap64_def upto.simps)
  have node: "\<forall>g\<in>set (findEpochGaps ?heights). (\<lambda>h. Inr (tipset_at h)) g = Inr (tipset_at g)"
    by simp
  from detectProcessingGaps_per_candidate[OF sel node, of 7 "[''messages'', ''blocks'']"]
  show ?thesis
    by (simp add: cands tipset_at_def)
qed

lemma skippedLoop_closed:
  assumes "\<forall>r\<in>set rs. node (pr_Height r) = Inr (ts (pr_Height r))"
  shows "skippedLoop t node rs acc =
         Inr (acc @ map (\<lambda>r. \<lparr>gr_Height = pr_Height r, gr_TipSet = ts_Key (ts (pr_Height r)),
                               gr_Task = pr_Task r, gr_Status = ''GAP'',
                               gr_Reporter = ''gapIndexer'', gr_ReportedAt = t\<rparr>) rs)"
  using assms by (induction rs arbitrary: acc) simp_all

text \<open>
  C5, as the code has it. When the query for the skipped reports and the tipset lookup at
  the height of every skipped report succeed, \<open>detectSkippedTipSets\<close> returns, for each
  report with status skip, exactly one record, by descending height, with status \<^verbatim>\<open>GAP\<close>,
  the report's height and task, and the key of the tipset that the lookup at that height
  returned; the height of the returned tipset is not compared with the report's.
\<close>

theorem detectSkippedTipSets_emits:
  assumes sel: "select_error db = None"
    and node: "\<forall>r\<in>set (processing_reports db).
                 pr_Status r = ProcessingStatusSkip \<longrightarrow>
                 node (pr_Height r) = Inr (ts (pr_Height r))"
  shows "detectSkippedTipSets ProcessingStatusSkip reportTime db node =
         Inr (map (\<lambda>r. \<lparr>gr_Height = pr_Height r, gr_TipSet = ts_Key (ts (pr_Height r)),
                         gr_Task = pr_Task r, gr_Status = ''GAP'',
                         gr_Reporter = ''gapIndexer'', gr_ReportedAt = reportTime\<rparr>)
                (orderByHeightDesc
                   (filter (\<lambda>r. pr_Status r = ProcessingStatusSkip) (processing_reports db))))"
proof -
  let ?skipped = "orderByHeightDesc
                   (filter (\<lambda>r. pr_Status r = ProcessingStatusSkip) (processing_reports db))"
  have q: "selectSkippedReports ProcessingStatusSkip db = Inr ?skipped"
    by (simp add: selectSkippedReports_def sel)
  have "\<forall>r\<in>set ?skipped. node (pr_Height r) = Inr (ts (pr_Height r))"
    using node by (simp add: orderByHeightDesc_def)
  then show ?thesis
    unfolding detectSkippedTipSets_def q
    using skippedLoop_closed[of ?skipped node ts reportTime "[]"] by simp
qed

text \<open>The theorem on the store above, whose one skipped report is at height 3.\<close>

theorem detectSkippedTipSets_emits_witness:
  "detectSkippedTipSets ''SKIP'' 7 sample_db (\<lambda>h. Inr (tipset_at h)) =
     Inr [\<lparr>gr_Height = 3, gr_TipSet = ''{bafy0}'', gr_Task = ''blocks'', gr_Status = ''GAP'',
           gr_Reporter = ''gapIndexer'', gr_ReportedAt = 7\<rparr>]"
proof -
  have sel: "select_error sample_db = None"
    by (simp add: sample_db_def)
  have node: "\<forall>r\<in>set (processing_reports sample_db).
                pr_Status r = ''SKIP'' \<longrightarrow>
                (\<lambda>h. Inr (tipset_at h)) (pr_Height r) = Inr (tipset_at (pr_Height r))"
    by simp
  show ?thesis
    unfolding detectSkippedTipSets_emits[OF sel node]
    by (simp add: sample_db_def orderByHeightDesc_def tipset_at_def)
qed

text \<open>
  With the same store and a chain source whose lookup fails, the skipped report is not
  re-emitted: the detector returns the error and no record.
\<close>

theorem detectSkippedTipSets_lookup_failure_counterexample:
  "detectSkippedTipSets ''SKIP'' 7 sample_db failing_node =
     Inl (Errorf ''getting tipset by height %d: %w'' [3] (External ''unavailable''))"
  by (simp add: detectSkippedTipSets_def selectSkippedReports_def sample_db_def
      orderByHeightDesc_def failing_node_def)

section \<open>Properties of the gap filler\<close>

lemma queryGaps_ok:
  assumes "select_error db = None"
  shows "queryGaps db tasks = Inr (gapsByHeightDesc (filter (selectedGap tasks) (gap_reports db)))"
proof (cases "tasks = []")
  case True
  then have "selectedGap tasks = (\<lambda>r. gr_Status r = ''GAP'')"
    by (simp add: fun_eq_iff selectedGap_def)
  then show ?thesis using assms True by (simp add: queryGaps_def)
next
  case False
  then have "selectedGap tasks = (\<lambda>r. gr_Status r = ''GAP'' \<and> gr_Task r \<in> set tasks)"
    by (simp add: fun_eq_iff selectedGap_def)
  then show ?thesis using assms False by (simp add: queryGaps_def)
qed

lemma fillGap_redrive:
  "fillGap N W gap =
     gap\<lparr>gr_Status := (case redrive N W gap of None \<Rightarrow> ''FILLED'' | Some err \<Rightarrow> err)\<rparr>"
  by (simp add: fillGap_def redrive_def split: sum.splits option.splits)

lemma samePK_fillGap: "samePK row (fillGap N W g) = samePK row g"
  by (simp add: fillGap_redrive samePK_def)

lemma samePK_eq:
  assumes "distinct (map (\<lambda>r. (gr_Height r, gr_TipSet r, gr_Task r)) rows)"
    and "a \<in> set rows" and "b \<in> set rows" and "samePK a b"
  shows "a = b"
proof -
  have "inj_on (\<lambda>r. (gr_Height r, gr_TipSet r, gr_Task r)) (set rows)"
    using assms(1) by (simp add: distinct_map)
  moreover have "(\<lambda>r. (gr_Height r, gr_TipSet r, gr_Task r)) a =
                 (\<lambda>r. (gr_Height r, gr_TipSet r, gr_Task r)) b"
    using assms(4) by (simp add: samePK_def)
  ultimately show ?thesis using assms(2,3) by (auto dest: inj_onD)
qed

lemma updateRow_filled:
  assumes pk: "distinct (map (\<lambda>r. (gr_Height r, gr_TipSet r, gr_Task r)) rows)"
    and row: "row \<in> set rows"
  shows "updateRow (map (fillGap N W) (gapsByHeightDesc (filter sel rows))) row =
         (if sel row then fillGap N W row else row)"
proof -
  let ?gaps = "gapsByHeightDesc (filter sel rows)"
  have mem: "set ?gaps = {g \<in> set rows. sel g}"
    by (auto simp: gapsByHeightDesc_def)
  show ?thesis
  proof (cases "find (samePK row) (map (fillGap N W) ?gaps)")
    case None
    then have no: "\<forall>x\<in>set ?gaps. \<not> samePK row x"
      by (simp add: find_None_iff samePK_fillGap)
    have "\<not> sel row"
    proof
      assume "sel row"
      then have "row \<in> set ?gaps" using row mem by simp
      with no have "\<not> samePK row row" by blast
      then show False by (simp add: samePK_def)
    qed
    then show ?thesis using None by (simp add: updateRow_def)
  next
    case (Some x)
    then have "x \<in> set (map (fillGap N W) ?gaps)" "samePK row x"
      by (auto simp: find_Some_iff)
    then obtain g where g: "g \<in> set rows" "sel g" "x = fillGap N W g" "samePK row g"
      using mem by (auto simp: samePK_fillGap)
    then have "row = g" using samePK_eq[OF pk row] by blast
    then show ?thesis using Some g by (simp add: updateRow_def)
  qed
qed

text \<open>
  C1, as the code has it. When the query and the update succeed (and the ledger's rows
  have distinct primary keys), \<open>GapFiller_Run\<close> rewrites exactly the rows with status
  \<^verbatim>\<open>GAP\<close> (of the configured tasks, when tasks are configured): the status of such a row
  becomes \<^verbatim>\<open>FILLED\<close> when its re-drive succeeds and the text of the error when it fails.
  Every other row and every other field is unchanged.
\<close>

theorem GapFiller_Run_statuses:
  assumes sel: "select_error db = None" and upd: "update_error db = None"
    and pk: "distinct (map (\<lambda>r. (gr_Height r, gr_TipSet r, gr_Task r)) (gap_reports db))"
  shows "GapFiller_Run NewTipSetIndexer walkerRun db tasks =
         (None,
          db\<lparr>gap_reports :=
               map (\<lambda>row. if selectedGap tasks row
                           then row\<lparr>gr_Status :=
                                      (case redrive NewTipSetIndexer walkerRun row of
                                         None \<Rightarrow> ''FILLED''
                                       | Some err \<Rightarrow> err)\<rparr>
                           else row)
                 (gap_reports db)\<rparr>)"
proof -
  let ?gaps = "gapsByHeightDesc (filter (selectedGap tasks) (gap_reports db))"
  let ?filled = "map (fillGap NewTipSetIndexer walkerRun) ?gaps"
  let ?f = "\<lambda>row. if selectedGap tasks row
                    then row\<lparr>gr_Status :=
                               (case redrive NewTipSetIndexer walkerRun row of
                                  None \<Rightarrow> ''FILLED''
                                | Some err \<Rightarrow> err)\<rparr>
                    else row"
  have run: "GapFiller_Run NewTipSetIndexer walkerRun db tasks = updateGaps db ?filled"
    by (simp add: GapFiller_Run_def queryGaps_ok[OF sel])
  have rows: "map (updateRow ?filled) (gap_reports db) = map ?f (gap_reports db)"
    using updateRow_filled[OF pk, of _ NewTipSetIndexer walkerRun "selectedGap tasks"]
    by (simp add: fillGap_redrive)
  show ?thesis
  proof (cases "?filled = []")
    case True
    then have "length ?gaps = 0" by simp
    then have "length (filter (selectedGap tasks) (gap_reports db)) = 0"
      unfolding gapsByHeightDesc_def length_sort .
    then have "filter (selectedGap tasks) (gap_reports db) = []"
      by (simp only: length_0_conv)
    then have "map ?f (gap_reports db) = gap_reports db"
      by (simp add: filter_empty_conv map_idI)
    then show ?thesis using True run by (simp add: updateGaps_def)
  next
    case False
    then show ?thesis using run rows upd by (simp add: updateGaps_def)
  qed
qed

text \<open>
  The theorem on the ledger above with the task filter \<^verbatim>\<open>messages\<close>: the gap at height
  120 fails and gets the error text, the gap at height 121 is filled.
\<close>

theorem GapFiller_Run_statuses_witness:
  "map gr_Status
     (gap_reports (snd (GapFiller_Run sample_indexer sample_walker gap_db [''messages'']))) =
     [''boom'', ''FILLED'', ''FILLED'']"
proof -
  have h1: "select_error gap_db = None" by (simp add: gap_db_def)
  have h2: "update_error gap_db = None" by (simp add: gap_db_def)
  have h3: "distinct (map (\<lambda>r. (gr_Height r, gr_TipSet r, gr_Task r)) (gap_reports gap_db))"
    by (simp add: gap_db_def gap_at_def)
  show ?thesis
    unfolding GapFiller_Run_statuses[OF h1 h2 h3]
    by (simp add: gap_db_def gap_at_def selectedGap_def redrive_def sample_indexer_def
        sample_walker_def)
qed

text \<open>
  A failed re-drive does not leave the status \<^verbatim>\<open>GAP\<close>: without a task filter, the status of
  the gap at height 120, whose re-drive fails with \<^verbatim>\<open>boom\<close>, is \<^verbatim>\<open>boom\<close> afterwards. And
  not every record with status \<^verbatim>\<open>GAP\<close> is processed: with the task filter \<^verbatim>\<open>blocks\<close> the two
  open gaps of the task \<^verbatim>\<open>messages\<close> stay as they are.
\<close>

theorem GapFiller_Run_failed_status_counterexample:
  "map gr_Status (gap_reports (snd (GapFiller_Run sample_indexer sample_walker gap_db []))) =
     [''boom'', ''FILLED'', ''FILLED''] \<and>
   map gr_Status
     (gap_reports (snd (GapFiller_Run sample_indexer sample_walker gap_db [''blocks'']))) =
     [''GAP'', ''GAP'', ''FILLED'']"
  by (simp add: GapFiller_Run_def queryGaps_def gapsByHeightDesc_def gap_db_def gap_at_def
      fillGap_def sample_indexer_def sample_walker_def updateGaps_def updateRow_def samePK_def)

section \<open>Properties of processBatch\<close>

lemma batchLoop_result:
  "fst (batchLoop ctxDone clock processItem idx batch marks) = (False, None)"
  by (induction batch arbitrary: idx marks) (simp_all split: option.splits)

lemma batchLoop_marks:
  "\<exists>k\<le>length batch.
     snd (batchLoop ctxDone clock processItem idx batch marks) =
       marks @ map (completionOf clock processItem)
                 (take k (zip [idx..<idx + length batch] batch)) \<and>
     ((\<forall>i<length batch. \<not> ctxDone (idx + i)) \<longrightarrow> k = length batch)"
proof (induction batch arbitrary: idx marks)
  case Nil
  then show ?case by simp
next
  case (Cons item batch)
  show ?case
  proof (cases "ctxDone idx")
    case True
    then show ?thesis by (intro exI[of _ 0]) auto
  next
    case False
    let ?m = "marks @ [completionOf clock processItem (idx, item)]"
    from Cons.IH[of "Suc idx" ?m] obtain k where k: "k \<le> length batch"
      "snd (batchLoop ctxDone clock processItem (Suc idx) batch ?m) =
         ?m @ map (completionOf clock processItem)
                (take k (zip [Suc idx..<Suc idx + length batch] batch))"
      "(\<forall>i<length batch. \<not> ctxDone (Suc idx + i)) \<longrightarrow> k = length batch"
      by blast
    have step: "batchLoop ctxDone clock processItem idx (item # batch) marks =
                batchLoop ctxDone clock processItem (Suc idx) batch ?m"
      using False by (simp add: completionOf_def split: option.splits)
    have range: "[idx..<idx + length (item # batch)] = idx # [Suc idx..<Suc idx + length batch]"
      by (simp add: upt_rec)
    have all: "(\<forall>i<length (item # batch). \<not> ctxDone (idx + i)) \<longrightarrow>
               Suc k = length (item # batch)"
    proof
      assume a: "\<forall>i<length (item # batch). \<not> ctxDone (idx + i)"
      have "\<forall>i<length batch. \<not> ctxDone (Suc idx + i)"
      proof (intro allI impI)
        fix i assume "i < length batch"
        then have "Suc i < length (item # batch)" by simp
        with a have "\<not> ctxDone (idx + Suc i)" by blast
        then show "\<not> ctxDone (Suc idx + i)" by simp
      qed
      with k(3) show "Suc k = length (item # batch)" by simp
    qed
    show ?thesis
      using k(1) k(2) all unfolding step range
      by (intro exI[of _ "Suc k"]) simp
  qed
qed

lemma processBatch_result:
  "fst (processBatch ctxDone clock processItem lease marks) =
     (case lease of Inl err \<Rightarrow> (True, Some err) | Inr batch \<Rightarrow> (False, None))"
  by (simp add: processBatch_def batchLoop_result split: sum.splits)

lemma RepeatUntil_result:
  assumes "\<And>k s s'. fst (f k s) = fst (g k s')"
  shows "fst (RepeatUntil fuel ctx f k s) = fst (RepeatUntil fuel ctx g k s')"
proof (induction fuel arbitrary: k s s')
  case 0
  then show ?case by simp
next
  case (Suc fuel)
  obtain d e t where f: "f k s = ((d, e), t)" by (metis surj_pair)
  obtain d' e' t' where g: "g k s' = ((d', e'), t')" by (metis surj_pair)
  from assms[of k s s'] f g have eq: "d' = d" "e' = e" by simp_all
  show ?case
    using Suc.IH[of "Suc k" t t'] f g eq
    by (simp split: option.splits bool.splits)
qed

text \<open>
  What \<open>MessageProcessor_Run\<close> returns after any number of batches is the same for every
  behaviour of \<open>processItem\<close>: it is decided by the leases and the context alone.
\<close>

lemma MessageProcessor_Run_result:
  "fst (MessageProcessor_Run fuel ctx ctxDone clock processItem lease marks) =
   fst (MessageProcessor_Run fuel ctx ctxDone clock processItem' lease marks')"
  unfolding MessageProcessor_Run_def
  by (rule RepeatUntil_result) (simp add: processBatch_result)

text \<open>
  C8. For a batch that was leased, \<open>processBatch\<close> returns \<open>(False, None)\<close>: not done, and
  no error, whatever \<open>processItem\<close> returns for the items, so that what it hands back to
  the loop that \<^verbatim>\<open>Run\<close> starts is the same for every behaviour of \<open>processItem\<close>. When
  the context is not done at any item, every item of the batch gets one completion call,
  in order, whose detail is the text of the item's error, or empty when the item
  succeeded; a failed item does not stop the items after it.
\<close>

theorem processBatch_isolates_item_errors:
  assumes lease: "lease = Inr batch"
  shows "fst (processBatch ctxDone clock processItem lease marks) = (False, None) \<and>
         fst (processBatch ctxDone clock processItem lease marks) =
           fst (processBatch ctxDone clock processItem' lease marks) \<and>
         ((\<forall>i<length batch. \<not> ctxDone i) \<longrightarrow>
            snd (processBatch ctxDone clock processItem lease marks) =
              marks @ map (completionOf clock processItem) (zip [0..<length batch] batch))"
proof -
  have r: "fst (processBatch ctxDone clock p lease marks) = (False, None)" for p
    unfolding processBatch_def lease by (simp add: batchLoop_result)
  have m: "snd (processBatch ctxDone clock processItem lease marks) =
              marks @ map (completionOf clock processItem) (zip [0..<length batch] batch)"
    if nd: "\<forall>i<length batch. \<not> ctxDone i"
  proof (cases "batch = []")
    case True
    then show ?thesis unfolding processBatch_def lease by simp
  next
    case False
    from batchLoop_marks[of batch ctxDone clock processItem 0 marks] nd
    have "snd (batchLoop ctxDone clock processItem 0 batch marks) =
            marks @ map (completionOf clock processItem) (zip [0..<length batch] batch)"
      by auto
    then show ?thesis using False unfolding processBatch_def lease by simp
  qed
  show ?thesis using r m by simp
qed

text \<open>
  The theorem on a batch of three items whose second item fails: all three are marked
  complete, the second with the error text, and no error is returned.
\<close>

theorem processBatch_isolates_item_errors_witness:
  "processBatch never_done sample_clock sample_processItem (Inr sample_batch) [] =
     ((False, None),
      [\<lparr>cp_TipSet = ''{bafya}'', cp_Height = 10, cp_CompletedAt = 100, cp_ErrorsDetected = []\<rparr>,
       \<lparr>cp_TipSet = ''{bafyb}'', cp_Height = 11, cp_CompletedAt = 101,
        cp_ErrorsDetected = ''get tipset: boom''\<rparr>,
       \<lparr>cp_TipSet = ''{bafyc}'', cp_Height = 12, cp_CompletedAt = 102, cp_ErrorsDetected = []\<rparr>])"
proof -
  have nd: "\<forall>i<length sample_batch. \<not> never_done i"
    by (simp add: never_done_def)
  have idx: "[0..<length sample_batch] = [0, 1, 2]"
    by (simp add: sample_batch_def upt_rec)
  from processBatch_isolates_item_errors
         [OF refl, of never_done sample_clock sample_processItem sample_batch "[]"
            sample_processItem] nd
  have "fst (processBatch never_done sample_clock sample_processItem (Inr sample_batch) []) =
          (False, None)"
    and "snd (processBatch never_done sample_clock sample_processItem (Inr sample_batch) []) =
          [] @ map (completionOf sample_clock sample_processItem)
                 (zip [0..<length sample_batch] sample_batch)"
    by blast+
  then show ?thesis
    unfolding idx
    by (simp add: prod_eq_iff sample_batch_def completionOf_def sample_clock_def
        sample_processItem_def)
qed

section \<open>Properties of extractMessageModels\<close>

lemma messagesLoop_ok:
  assumes "\<forall>m\<in>set vmm. \<exists>b. tm_Serialize m = Inr b" and "seenInv st"
  shows "\<exists>st'. messagesLoop N blk height vmm st = Inr st' \<and> seenInv st' \<and>
           bmsgModels st' =
             bmsgModels st @ map (\<lambda>m. \<lparr>bm_Block = blk, bm_Message = tm_Cid m\<rparr>) vmm \<and>
           msgsSeen st' = msgsSeen st \<union> set (map tm_Cid vmm)"
  using assms
proof (induction vmm arbitrary: st)
  case Nil
  then show ?case by simp
next
  case (Cons message vmm)
  let ?st1 = "st\<lparr>bmsgModels := bmsgModels st @ [\<lparr>bm_Block = blk, bm_Message = tm_Cid message\<rparr>],
                  totalUniqGasLimit := wrap64 (totalUniqGasLimit st + tm_GasLimit message)\<rparr>"
  from Cons.prems(1) obtain b where b: "tm_Serialize message = Inr b" by auto
  have rest: "\<forall>m\<in>set vmm. \<exists>b. tm_Serialize m = Inr b" using Cons.prems(1) by simp
  show ?case
  proof (cases "tm_Cid message \<in> msgsSeen st")
    case True
    have inv1: "seenInv ?st1" using Cons.prems(2) by (simp add: seenInv_def)
    from Cons.IH[OF rest inv1] obtain st' where st':
      "messagesLoop N blk height vmm ?st1 = Inr st'" "seenInv st'"
      "bmsgModels st' =
         bmsgModels ?st1 @ map (\<lambda>m. \<lparr>bm_Block = blk, bm_Message = tm_Cid m\<rparr>) vmm"
      "msgsSeen st' = msgsSeen ?st1 \<union> set (map tm_Cid vmm)"
      by blast
    have "messagesLoop N blk height (message # vmm) st = Inr st'"
      using True st'(1) by (simp add: Let_def)
    moreover have "msgsSeen st' = msgsSeen st \<union> set (map tm_Cid (message # vmm))"
      using st'(4) True by auto
    ultimately show ?thesis using st'(2,3) by simp
  next
    case False
    let ?st3 = "?st1\<lparr>totalGasLimit := wrap64 (totalGasLimit ?st1 + tm_GasLimit message),
                     pmsgModels := pmsgModels ?st1 @ [N message height],
                     msgModels := msgModels ?st1 @ [messageModel message (length b)],
                     msgsSeen := insert (tm_Cid message) (msgsSeen ?st1)\<rparr>"
    have inv3: "seenInv ?st3"
      using Cons.prems(2) False by (auto simp: seenInv_def messageModel_def)
    from Cons.IH[OF rest inv3] obtain st' where st':
      "messagesLoop N blk height vmm ?st3 = Inr st'" "seenInv st'"
      "bmsgModels st' =
         bmsgModels ?st3 @ map (\<lambda>m. \<lparr>bm_Block = blk, bm_Message = tm_Cid m\<rparr>) vmm"
      "msgsSeen st' = msgsSeen ?st3 \<union> set (map tm_Cid vmm)"
      by blast
    have "messagesLoop N blk height (message # vmm) st = Inr st'"
      using False st'(1) b by (simp add: Let_def)
    moreover have "msgsSeen st' = msgsSeen st \<union> set (map tm_Cid (message # vmm))"
      using st'(4) by auto
    ultimately show ?thesis using st'(2,3) by simp
  qed
qed

lemma allMessages_Cons:
  "allMessages ((blk, msgs) # rest) =
     map (\<lambda>m. (blk, m)) (BlsMessages msgs @ SecpkMessages msgs) @ allMessages rest"
  by (simp add: allMessages_def)

lemma blocksLoop_ok:
  assumes "\<forall>i<length blkMsgs. ctx (idx + i) = None"
    and "\<forall>p\<in>set (allMessages blkMsgs). \<exists>b. tm_Serialize (snd p) = Inr b"
    and "seenInv st"
  shows "\<exists>st'. blocksLoop N ctx height idx blkMsgs st = Inr st' \<and> seenInv st' \<and>
           bmsgModels st' =
             bmsgModels st @
             map (\<lambda>p. \<lparr>bm_Block = fst p, bm_Message = tm_Cid (snd p)\<rparr>) (allMessages blkMsgs) \<and>
           msgsSeen st' = msgsSeen st \<union> set (map (\<lambda>p. tm_Cid (snd p)) (allMessages blkMsgs))"
  using assms
proof (induction blkMsgs arbitrary: idx st)
  case Nil
  then show ?case by (simp add: allMessages_def)
next
  case (Cons a rest)
  obtain blk msgs where a: "a = (blk, msgs)" by (cases a)
  let ?vmm = "BlsMessages msgs @ SecpkMessages msgs"
  have ctx0: "ctx idx = None" using Cons.prems(1) by force
  have ser: "\<forall>m\<in>set ?vmm. \<exists>b. tm_Serialize m = Inr b"
    using Cons.prems(2) unfolding a allMessages_Cons by force
  from messagesLoop_ok[OF ser Cons.prems(3), of N blk height] obtain st1 where st1:
    "messagesLoop N blk height ?vmm st = Inr st1" "seenInv st1"
    "bmsgModels st1 = bmsgModels st @ map (\<lambda>m. \<lparr>bm_Block = blk, bm_Message = tm_Cid m\<rparr>) ?vmm"
    "msgsSeen st1 = msgsSeen st \<union> set (map tm_Cid ?vmm)"
    by blast
  have ctxr: "\<forall>i<length rest. ctx (Suc idx + i) = None"
  proof (intro allI impI)
    fix i assume "i < length rest"
    then have "Suc i < length (a # rest)" by simp
    with Cons.prems(1) have "ctx (idx + Suc i) = None" by blast
    then show "ctx (Suc idx + i) = None" by simp
  qed
  have serr: "\<forall>p\<in>set (allMessages rest). \<exists>b. tm_Serialize (snd p) = Inr b"
    using Cons.prems(2) unfolding a allMessages_Cons by simp
  from Cons.IH[OF ctxr serr st1(2)] obtain st' where st':
    "blocksLoop N ctx height (Suc idx) rest st1 = Inr st'" "seenInv st'"
    "bmsgModels st' = bmsgModels st1 @
       map (\<lambda>p. \<lparr>bm_Block = fst p, bm_Message = tm_Cid (snd p)\<rparr>) (allMessages rest)"
    "msgsSeen st' = msgsSeen st1 \<union> set (map (\<lambda>p. tm_Cid (snd p)) (allMessages rest))"
    by blast
  have run: "blocksLoop N ctx height idx (a # rest) st = Inr st'"
    unfolding a using ctx0 st1(1) st'(1) by simp
  have bm: "bmsgModels st' = bmsgModels st @
       map (\<lambda>p. \<lparr>bm_Block = fst p, bm_Message = tm_Cid (snd p)\<rparr>) (allMessages (a # rest))"
    unfolding a allMessages_Cons using st'(3) st1(3) by (simp add: o_def)
  have seen: "msgsSeen st' =
      msgsSeen st \<union> set (map (\<lambda>p. tm_Cid (snd p)) (allMessages (a # rest)))"
    unfolding a allMessages_Cons using st'(4) st1(4) by (auto simp: o_def)
  show ?case using run st'(2) bm seen by blast
qed

text \<open>
  C7. When the context is not done at any block and every message serializes,
  \<open>extractMessageModels\<close> succeeds; its block-message list has one (block, message CID)
  pair for every occurrence of a message in a block, in the order of the traversal, so a
  message in several blocks has one pair for each of them; and its message list has one
  row for each distinct message CID of the tipset: no two rows share a CID, and the CIDs
  of the rows are exactly the CIDs that occur.
\<close>

theorem extractMessageModels_pairs_and_unique_messages:
  assumes ctx: "\<forall>i<length blkMsgs. ctx i = None"
    and ser: "\<forall>p\<in>set (allMessages blkMsgs). \<exists>b. tm_Serialize (snd p) = Inr b"
  shows "\<exists>st. extractMessageModels NewProcessingMessage ctx height blkMsgs = Inr st \<and>
           bmsgModels st =
             map (\<lambda>p. \<lparr>bm_Block = fst p, bm_Message = tm_Cid (snd p)\<rparr>) (allMessages blkMsgs) \<and>
           distinct (map msg_Cid (msgModels st)) \<and>
           set (map msg_Cid (msgModels st)) =
             set (map (\<lambda>p. tm_Cid (snd p)) (allMessages blkMsgs))"
proof -
  let ?st0 = "\<lparr>msgModels = [], bmsgModels = [], pmsgModels = [], msgsSeen = {},
               totalGasLimit = 0, totalUniqGasLimit = 0\<rparr> :: 'a extraction"
  have inv0: "seenInv ?st0" by (simp add: seenInv_def)
  have ctx': "\<forall>i<length blkMsgs. ctx (0 + i) = None" using ctx by simp
  from blocksLoop_ok[OF ctx' ser inv0, of NewProcessingMessage height] obtain st where st:
    "blocksLoop NewProcessingMessage ctx height 0 blkMsgs ?st0 = Inr st" "seenInv st"
    "bmsgModels st = bmsgModels ?st0 @
       map (\<lambda>p. \<lparr>bm_Block = fst p, bm_Message = tm_Cid (snd p)\<rparr>) (allMessages blkMsgs)"
    "msgsSeen st = msgsSeen ?st0 \<union> set (map (\<lambda>p. tm_Cid (snd p)) (allMessages blkMsgs))"
    by blast
  have "extractMessageModels NewProcessingMessage ctx height blkMsgs = Inr st"
    using st(1) by (simp add: extractMessageModels_def)
  moreover have "set (map msg_Cid (msgModels st)) =
             set (map (\<lambda>p. tm_Cid (snd p)) (allMessages blkMsgs))"
    using st(2,4) by (simp add: seenInv_def)
  moreover have "distinct (map msg_Cid (msgModels st))"
    using st(2) by (simp add: seenInv_def)
  ultimately show ?thesis using st(3) by simp
qed

text \<open>
  The theorem on a tipset of two blocks that both hold \<^verbatim>\<open>mA\<close>: four inclusion pairs, three
  message rows.
\<close>

theorem extractMessageModels_pairs_and_unique_messages_witness:
  "\<exists>st. extractMessageModels sample_NewProcessingMessage ctx_live 50 sample_blkMsgs = Inr st \<and>
          bmsgModels st =
            [\<lparr>bm_Block = ''blk1'', bm_Message = ''mA''\<rparr>, \<lparr>bm_Block = ''blk1'', bm_Message = ''mB''\<rparr>,
             \<lparr>bm_Block = ''blk2'', bm_Message = ''mA''\<rparr>, \<lparr>bm_Block = ''blk2'', bm_Message = ''mC''\<rparr>] \<and>
          distinct (map msg_Cid (msgModels st)) \<and>
          set (map msg_Cid (msgModels st)) = {''mA'', ''mB'', ''mC''}"
proof -
  have occ: "allMessages sample_blkMsgs =
      [(''blk1'', chain_message ''mA''), (''blk1'', chain_message ''mB''),
       (''blk2'', chain_message ''mA''), (''blk2'', chain_message ''mC'')]"
    by (simp add: allMessages_def sample_blkMsgs_def)
  have h1: "\<forall>i<length sample_blkMsgs. ctx_live i = None"
    by (simp add: ctx_live_def)
  have h2: "\<forall>p\<in>set (allMessages sample_blkMsgs). \<exists>b. tm_Serialize (snd p) = Inr b"
    unfolding occ by (simp add: chain_message_def)
  from extractMessageModels_pairs_and_unique_messages
         [OF h1 h2, of sample_NewProcessingMessage 50]
  show ?thesis
    unfolding occ by (simp add: chain_message_def insert_commute)
qed

section \<open>Properties of the persistence of message rows\<close>








section \<open>Properties of the miner state diffs\<close>

subsection \<open>Pre-commits\<close>

lemma preCommitChangesLoop_drop:
  "preCommitChangesLoop changes c =
   preCommitChangesLoop (filter (\<lambda>c. ch_Type c \<noteq> Modify) changes) c"
proof (induction changes arbitrary: c)
  case Nil
  then show ?case by simp
next
  case (Cons change changes)
  show ?case
  proof (cases "ch_Type change")
    case Modify
    then show ?thesis using Cons by (simp add: preCommitDiffContainer_Modify_def)
  next
    case Add
    then show ?thesis using Cons by (simp split: sum.splits)
  next
    case Remove
    then show ?thesis using Cons by (simp split: sum.splits)
  qed
qed

lemma preCommitChangesLoop_results:
  assumes "preCommitChangesLoop changes c = Inr c'"
  shows "pcd_pre c' = pcd_pre c \<and> pcd_after c' = pcd_after c \<and>
         pc_Added (pcd_Results c') =
           pc_Added (pcd_Results c) @ concat (map (addedOf (pcd_after c)) changes) \<and>
         pc_Removed (pcd_Results c') =
           pc_Removed (pcd_Results c) @ concat (map (removedOf (pcd_pre c)) changes)"
  using assms
proof (induction changes arbitrary: c)
  case Nil
  then show ?case by simp
next
  case (Cons change changes)
  show ?case
  proof (cases "ch_Type change")
    case Modify
    with Cons.prems have "preCommitChangesLoop changes c = Inr c'"
      by (simp add: preCommitDiffContainer_Modify_def)
    from Cons.IH[OF this] Modify show ?thesis
      by (simp add: addedOf_def removedOf_def)
  next
    case Add
    with Cons.prems obtain sp where sp:
      "decodeSectorPreCommitOnChainInfo (pcd_after c) (ch_After change) = Inr sp"
      "preCommitChangesLoop changes
         (c\<lparr>pcd_Results := (pcd_Results c)\<lparr>pc_Added := pc_Added (pcd_Results c) @ [sp]\<rparr>\<rparr>) = Inr c'"
      by (auto simp: preCommitDiffContainer_Add_def split: sum.splits)
    from Cons.IH[OF sp(2)] Add sp(1) show ?thesis
      by (simp add: addedOf_def removedOf_def decodedOf_def)
  next
    case Remove
    with Cons.prems obtain sp where sp:
      "decodeSectorPreCommitOnChainInfo (pcd_pre c) (ch_Before change) = Inr sp"
      "preCommitChangesLoop changes
         (c\<lparr>pcd_Results := (pcd_Results c)\<lparr>pc_Removed := pc_Removed (pcd_Results c) @ [sp]\<rparr>\<rparr>) = Inr c'"
      by (auto simp: preCommitDiffContainer_Remove_def split: sum.splits)
    from Cons.IH[OF sp(2)] Remove sp(1) show ?thesis
      by (simp add: addedOf_def removedOf_def decodedOf_def)
  qed
qed

text \<open>
  C10. The pre-commit \<open>Modify\<close> handler returns the container as it is. So the result of
  \<open>DiffPreCommits\<close> is the same as when the container diff reports no modification at
  all, whichever strategy is selected; and when \<open>DiffPreCommits\<close> succeeds, its result,
  which has only the two lists \<open>Added\<close> and \<open>Removed\<close>, holds the decoded new value of
  every reported addition and the decoded old value of every reported removal, and
  nothing for a reported modification.
\<close>

theorem DiffPreCommits_never_reports_modified:
  "preCommitDiffContainer_Modify m key from to = Inr m \<and>
   DiffPreCommits MapOptsForActorCode Equal GenericMap Hamt pre cur =
     DiffPreCommits MapOptsForActorCode Equal
       (\<lambda>prep curp. dropModified (GenericMap prep curp))
       (\<lambda>prep curp opts. dropModified (Hamt prep curp opts)) pre cur \<and>
   (precommits pre = Inr prep \<longrightarrow> precommits cur = Inr curp \<longrightarrow>
    MapOptsForActorCode (Code pre) = Inr preOpts \<longrightarrow>
    MapOptsForActorCode (Code cur) = Inr curOpts \<longrightarrow>
    (if mapRequiresLegacyDiffing Equal (Code pre) (Code cur) preOpts curOpts
     then GenericMap prep curp else Hamt prep curp preOpts) = Inr changes \<longrightarrow>
    DiffPreCommits MapOptsForActorCode Equal GenericMap Hamt pre cur = Inr res \<longrightarrow>
      pc_Added res = concat (map (addedOf cur) changes) \<and>
      pc_Removed res = concat (map (removedOf pre) changes))"
proof (intro conjI impI)
  show "preCommitDiffContainer_Modify m key from to = Inr m"
    by (simp add: preCommitDiffContainer_Modify_def)
next
  show "DiffPreCommits MapOptsForActorCode Equal GenericMap Hamt pre cur =
     DiffPreCommits MapOptsForActorCode Equal
       (\<lambda>prep curp. dropModified (GenericMap prep curp))
       (\<lambda>prep curp opts. dropModified (Hamt prep curp opts)) pre cur"
    unfolding DiffPreCommits_def dropModified_def Let_def
    by (simp add: preCommitChangesLoop_drop[symmetric] split: sum.splits)
next
  assume a: "precommits pre = Inr prep" "precommits cur = Inr curp"
    "MapOptsForActorCode (Code pre) = Inr preOpts" "MapOptsForActorCode (Code cur) = Inr curOpts"
    "(if mapRequiresLegacyDiffing Equal (Code pre) (Code cur) preOpts curOpts
      then GenericMap prep curp else Hamt prep curp preOpts) = Inr changes"
    "DiffPreCommits MapOptsForActorCode Equal GenericMap Hamt pre cur = Inr res"
  then obtain c' where c':
    "preCommitChangesLoop changes (NewPreCommitDiffContainer pre cur) = Inr c'"
    "res = pcd_Results c'"
    by (auto simp: DiffPreCommits_def Let_def split: sum.splits if_splits)
  from preCommitChangesLoop_results[OF c'(1)] c'(2)
  have r: "pc_Added res = concat (map (addedOf cur) changes)"
       "pc_Removed res = concat (map (removedOf pre) changes)"
    by (simp_all add: NewPreCommitDiffContainer_def)
  from r show "pc_Added res = concat (map (addedOf cur) changes)" by simp
  from r show "pc_Removed res = concat (map (removedOf pre) changes)" by simp
qed

text \<open>
  The theorem on one modification, one addition and one removal: the result has the
  addition and the removal only.
\<close>

theorem DiffPreCommits_never_reports_modified_witness:
  "DiffPreCommits sample_MapOpts (=) (\<lambda>prep curp. Inr precommit_changes)
     (\<lambda>prep curp opts. Inr precommit_changes) sample_state sample_state =
     Inr \<lparr>pc_Added = [[7]], pc_Removed = [[4]]\<rparr>"
proof -
  let ?G = "\<lambda>(prep :: unit) (curp :: unit). (Inr precommit_changes :: error + string Change list)"
  let ?H = "\<lambda>(prep :: unit) (curp :: unit) (opts :: nat).
              (Inr precommit_changes :: error + string Change list)"
  have run: "DiffPreCommits sample_MapOpts (=) ?G ?H sample_state sample_state =
               Inr \<lparr>pc_Added = [[7]], pc_Removed = [[4]]\<rparr>"
    by (simp add: DiffPreCommits_def sample_MapOpts_def sample_state_def
        mapRequiresLegacyDiffing_def NewPreCommitDiffContainer_def precommit_changes_def
        preCommitDiffContainer_Add_def preCommitDiffContainer_Modify_def
        preCommitDiffContainer_Remove_def)
  have h1: "precommits sample_state = Inr ()" by (simp add: sample_state_def)
  have h2: "sample_MapOpts (Code sample_state) = Inr 5" by (simp add: sample_MapOpts_def)
  have h3: "(if mapRequiresLegacyDiffing (=) (Code sample_state) (Code sample_state) 5 (5::nat)
             then ?G () () else ?H () () 5) = Inr precommit_changes"
    by simp
  from DiffPreCommits_never_reports_modified
         [where MapOptsForActorCode = sample_MapOpts and Equal = "(=)" and GenericMap = ?G
            and Hamt = ?H and pre = sample_state and cur = sample_state and prep = "()"
            and curp = "()" and preOpts = 5 and curOpts = 5 and changes = precommit_changes
            and res = "\<lparr>pc_Added = [[7]], pc_Removed = [[4]]\<rparr>"]
       h1 h2 h3 run
  have "pc_Added \<lparr>pc_Added = [[7::nat]], pc_Removed = [[4::nat]]\<rparr> =
          concat (map (addedOf sample_state) precommit_changes)"
    by blast
  with run show ?thesis by simp
qed

subsection \<open>Sectors\<close>

lemma sectorChangesLoop_results:
  assumes "sectorChangesLoop changes c = Inr c'"
  shows "sd_pre c' = sd_pre c \<and> sd_after c' = sd_after c \<and>
         sc_Extended (sd_Results c') =
           sc_Extended (sd_Results c) @ concat (map (extensionOf (sd_pre c) (sd_after c)) changes)"
  using assms
proof (induction changes arbitrary: c)
  case Nil
  then show ?case by simp
next
  case (Cons change changes)
  show ?case
  proof (cases "ch_Type change")
    case Modify
    with Cons.prems obtain c1 where c1:
      "sectorDiffContainer_Modify c (ch_Key change) (ch_Before change) (ch_After change) = Inr c1"
      "sectorChangesLoop changes c1 = Inr c'"
      by (auto split: sum.splits)
    from c1(1) have step: "sd_pre c1 = sd_pre c \<and> sd_after c1 = sd_after c \<and>
        sc_Extended (sd_Results c1) =
          sc_Extended (sd_Results c) @ extensionOf (sd_pre c) (sd_after c) change"
      using Modify
      by (auto simp: sectorDiffContainer_Modify_def extensionOf_def split: sum.splits if_splits)
    from Cons.IH[OF c1(2)] step show ?thesis by simp
  next
    case Add
    with Cons.prems obtain c1 where c1:
      "sectorDiffContainer_Add c (ch_Key change) (ch_After change) = Inr c1"
      "sectorChangesLoop changes c1 = Inr c'"
      by (auto split: sum.splits)
    from c1(1) have step: "sd_pre c1 = sd_pre c \<and> sd_after c1 = sd_after c \<and>
        sc_Extended (sd_Results c1) = sc_Extended (sd_Results c)"
      by (auto simp: sectorDiffContainer_Add_def split: sum.splits)
    from Cons.IH[OF c1(2)] step Add show ?thesis by (simp add: extensionOf_def)
  next
    case Remove
    with Cons.prems obtain c1 where c1:
      "sectorDiffContainer_Remove c (ch_Key change) (ch_Before change) = Inr c1"
      "sectorChangesLoop changes c1 = Inr c'"
      by (auto split: sum.splits)
    from c1(1) have step: "sd_pre c1 = sd_pre c \<and> sd_after c1 = sd_after c \<and>
        sc_Extended (sd_Results c1) = sc_Extended (sd_Results c)"
      by (auto simp: sectorDiffContainer_Remove_def split: sum.splits)
    from Cons.IH[OF c1(2)] step Remove show ?thesis by (simp add: extensionOf_def)
  qed
qed

text \<open>
  C6. When \<open>DiffSectors\<close> succeeds, its \<open>Extended\<close> list is made of the reported
  modifications, in order: a modification whose decoded old and new values differ in
  \<open>Expiration\<close> contributes the one pair (old, new), and a modification whose decoded
  values have the same \<open>Expiration\<close> contributes nothing, whatever else differs; additions
  and removals contribute nothing to \<open>Extended\<close>.
\<close>

theorem DiffSectors_extended_iff_expiration_differs:
  assumes "sectors pre = Inr pres" and "sectors cur = Inr curs"
    and "SectorsAmtBitwidth bw3 bw4 (Code pre) = Inr preOpts"
    and "SectorsAmtBitwidth bw3 bw4 (Code cur) = Inr curOpts"
    and "(if arrayRequiresLegacyDiffing (Code pre) (Code cur) preOpts curOpts
          then GenericArray pres curs else Amt pres curs preOpts) = Inr changes"
    and "DiffSectors bw3 bw4 GenericArray Amt pre cur = Inr res"
  shows "sc_Extended res = concat (map (extensionOf pre cur) changes) \<and>
         (\<forall>siFrom siTo.
            decodeSectorOnChainInfo pre from = Inr siFrom \<longrightarrow>
            decodeSectorOnChainInfo cur to = Inr siTo \<longrightarrow>
            extensionOf pre cur \<lparr>ch_Type = Modify, ch_Key = key, ch_Before = from, ch_After = to\<rparr> =
              (if Expiration siFrom \<noteq> Expiration siTo
               then [\<lparr>se_From = siFrom, se_To = siTo\<rparr>] else []))"
proof -
  from assms obtain c' where c':
    "sectorChangesLoop changes (NewSectorDiffContainer pre cur) = Inr c'"
    "res = sd_Results c'"
    by (auto simp: DiffSectors_def Let_def split: sum.splits if_splits)
  from sectorChangesLoop_results[OF c'(1)] c'(2)
  have "sc_Extended res = concat (map (extensionOf pre cur) changes)"
    by (simp add: NewSectorDiffContainer_def)
  then show ?thesis by (simp add: extensionOf_def)
qed

text \<open>
  The theorem on two modified sectors: sector 10 changes its deal weight only and is
  dropped, sector 11 changes its expiration from 100 to 200 and is reported.
\<close>

theorem DiffSectors_extended_iff_expiration_differs_witness:
  "\<exists>res. DiffSectors 5 5 (\<lambda>pres curs. Inr sector_changes) (\<lambda>pres curs bw. Inr sector_changes)
            sample_state sample_state = Inr res \<and>
          sc_Extended res =
            [\<lparr>se_From = \<lparr>SectorNumber = 11, Activation = 1, Expiration = 100, DealWeight = 5\<rparr>,
              se_To = \<lparr>SectorNumber = 11, Activation = 1, Expiration = 200, DealWeight = 5\<rparr>\<rparr>]"
proof -
  let ?G = "\<lambda>(pres :: unit) (curs :: unit). (Inr sector_changes :: error + nat Change list)"
  let ?A = "\<lambda>(pres :: unit) (curs :: unit) (bw :: int).
              (Inr sector_changes :: error + nat Change list)"
  obtain res where run: "DiffSectors 5 5 ?G ?A sample_state sample_state = Inr res"
    by (simp add: DiffSectors_def SectorsAmtBitwidth_def sample_state_def
        arrayRequiresLegacyDiffing_def NewSectorDiffContainer_def sector_changes_def
        sectorDiffContainer_Add_def sectorDiffContainer_Modify_def
        sectorDiffContainer_Remove_def sample_decode_def)
  have h1: "sectors sample_state = Inr ()" by (simp add: sample_state_def)
  have h2: "SectorsAmtBitwidth 5 5 (Code sample_state) = Inr 5"
    by (simp add: SectorsAmtBitwidth_def sample_state_def)
  have h3: "(if arrayRequiresLegacyDiffing (Code sample_state) (Code sample_state) 5 5
             then ?G () () else ?A () () 5) = Inr sector_changes"
    by simp
  from DiffSectors_extended_iff_expiration_differs[OF h1 h1 h2 h2 h3 run]
  have "sc_Extended res = concat (map (extensionOf sample_state sample_state) sector_changes)"
    by blast
  then have "sc_Extended res =
            [\<lparr>se_From = \<lparr>SectorNumber = 11, Activation = 1, Expiration = 100, DealWeight = 5\<rparr>,
              se_To = \<lparr>SectorNumber = 11, Activation = 1, Expiration = 200, DealWeight = 5\<rparr>\<rparr>]"
    by (simp add: sector_changes_def extensionOf_def sample_state_def sample_decode_def)
  with run show ?thesis by blast
qed

subsection \<open>Strategy selection\<close>

text \<open>
  The map diff selects the legacy strategy exactly when one of the two actor codes is the
  version 0 or version 2 storage miner code or the options differ.
\<close>

lemma mapRequiresLegacyDiffing_iff:
  "mapRequiresLegacyDiffing Equal preCode curCode pOpts cOpts \<longleftrightarrow>
     preCode \<in> {builtin0_StorageMinerActorCodeID, builtin2_StorageMinerActorCodeID} \<or>
     curCode \<in> {builtin0_StorageMinerActorCodeID, builtin2_StorageMinerActorCodeID} \<or>
     \<not> Equal pOpts cOpts"
  by (auto simp: mapRequiresLegacyDiffing_def)

text \<open>
  C2. The selection for arrays does not do the same: \<open>arrayRequiresLegacyDiffing\<close>
  compares the actor codes with the storage market codes, which a miner state never has.
  For two version 0 miner states, whose sector arrays both have bitwidth 3, it answers
  \<open>False\<close>, so \<open>DiffSectors\<close> takes the structural diff, while the map selection answers
  \<open>True\<close> for the same two states.
\<close>

theorem arrayRequiresLegacyDiffing_v0_miner:
  "SectorsAmtBitwidth bw3 bw4 builtin0_StorageMinerActorCodeID = Inr 3 \<and>
   arrayRequiresLegacyDiffing builtin0_StorageMinerActorCodeID
     builtin0_StorageMinerActorCodeID 3 3 = False \<and>
   mapRequiresLegacyDiffing Equal builtin0_StorageMinerActorCodeID
     builtin0_StorageMinerActorCodeID pOpts cOpts = True"
  by (simp add: SectorsAmtBitwidth_def arrayRequiresLegacyDiffing_def
      mapRequiresLegacyDiffing_def)

end
